theory Spec2Isabelle
  imports Main "HOL-Library.Char_ord" "HOL-Library.List_Lexorder"
begin

section \<open>Data model of the post controller\<close>

text \<open>
  The controller \<^verbatim>\<open>src/server/controllers/post.controller.ts\<close> works on rows of the
  \<^verbatim>\<open>post\<close> table. A row is a record; the columns that the controller compares
  against string literals (\<^verbatim>\<open>type\<close>, \<^verbatim>\<open>status\<close>) stay strings, relations are kept
  by id, and a nullable column is an \<open>option\<close>. Points in time are milliseconds
  since the epoch; the clock (\<^verbatim>\<open>new Date()\<close>) is an argument \<open>now\<close>.
\<close>

type_synonym time = int

record post_meta =
  meta_id :: "nat option"
  mkey :: string
  mvalue :: string

record post =
  post_id :: nat
  ptype :: string
  name :: string
  slug :: string
  slugPath :: string
  status :: string
  publishedAt :: "time option"
  publishedFrom :: "time option"
  publishedUntil :: "time option"
  parent :: "nat option"
  contentType :: "nat option"
  meta :: "post_meta list"
  tags :: "nat list"
  author :: "nat option"
  content :: "string option"
  updatedAt :: "time option"

text \<open>
  Every failure of the controller is a value: the \<^verbatim>\<open>BadRequestError\<close> codes it throws,
  the store's uniqueness violation (error code 23505) and the \<^verbatim>\<open>TypeError\<close> of the
  JavaScript runtime.
\<close>

datatype error =
    InvalidParent
  | InvalidSource
  | InvalidPost
  | InvalidPostVersion
  | InvalidPostType
  | InvalidContentType
  | InvalidIds
  | DuplicateSlug
  | UniqueViolation
  | TypeError

section \<open>Publish state\<close>

text \<open>
  \<^verbatim>\<open>isPostPublished(post?: IPost)\<close>, lines 28-39. The argument is optional; a bound
  that is not set is falsy and skips its test. \<^verbatim>\<open>isBefore(now, from)\<close> is \<open>now < from\<close>
  and \<^verbatim>\<open>isAfter(now, until)\<close> is \<open>until < now\<close>.
\<close>

definition isPostPublished :: "time \<Rightarrow> post option \<Rightarrow> bool" where
  "isPostPublished now po =
     (case po of
        None \<Rightarrow> False
      | Some p \<Rightarrow>
          if status p = ''published'' then
            if (case publishedFrom p of None \<Rightarrow> False | Some f \<Rightarrow> now < f) then False
            else if (case publishedUntil p of None \<Rightarrow> False | Some u \<Rightarrow> u < now) then False
            else True
          else False)"

text \<open>
  Modelled from the spec: the column defaults of \<^verbatim>\<open>post.model\<close>, which is not in
  \<^verbatim>\<open>src/\<close>. A row that is saved without a status or publish dates is a draft with
  no dates (the spec: \<^verbatim>\<open>publishedAt\<close> is set if and only if the status is
  \<^verbatim>\<open>published\<close>); a relation that is not given is empty.
\<close>

definition blank_post :: post where
  "blank_post =
     \<lparr> post_id = 0, ptype = ''post'', name = [], slug = [], slugPath = [],
       status = ''draft'', publishedAt = None, publishedFrom = None,
       publishedUntil = None, parent = None, contentType = None, meta = [],
       tags = [], author = None, content = None, updatedAt = None \<rparr>"

section \<open>The store\<close>

text \<open>
  The \<^verbatim>\<open>post\<close> table is the list of its rows. Every write the controller awaits is
  also appended to a log, so that the order of the writes of one request can be read
  off the resulting store. A request handler runs inside one transaction: it returns
  either an error (nothing is written) or the store after all its writes.
\<close>

datatype store_write =
    Insert post
  | Save post
  | MetaUpdate nat
  | ReplaceChildren string string
  | BulkUpdate "nat list"

record store =
  rows :: "post list"
  writes :: "store_write list"

text \<open>\<^verbatim>\<open>findOne(Post, {id})\<close> and \<^verbatim>\<open>findByIds(ids)\<close>.\<close>

definition findOne :: "post list \<Rightarrow> nat \<Rightarrow> post option" where
  "findOne rs i = find (\<lambda>r. post_id r = i) rs"

definition findByIds :: "post list \<Rightarrow> nat list \<Rightarrow> post list" where
  "findByIds rs ids = filter (\<lambda>r. post_id r \<in> set ids) rs"

text \<open>The id that the store generates for a new row is larger than every id in use.\<close>

definition fresh_id :: "post list \<Rightarrow> nat" where
  "fresh_id rs = Suc (fold max (map post_id rs) 0)"

text \<open>
  Modelled from the spec: the uniqueness constraint on \<^verbatim>\<open>slugPath\<close> that
  \<^verbatim>\<open>post.model\<close> (not in \<^verbatim>\<open>src/\<close>) declares. The spec: the store enforces slug-path
  uniqueness with a detectable conflict signal; the controller tests for the error
  code 23505. A write that would leave two rows with one path fails.
\<close>

definition unique_paths :: "post list \<Rightarrow> bool" where
  "unique_paths rs = distinct (map slugPath rs)"

definition commit :: "store \<Rightarrow> post list \<Rightarrow> store_write \<Rightarrow> error + store" where
  "commit st rs w =
     (if unique_paths rs then Inr (st\<lparr>rows := rs, writes := writes st @ [w]\<rparr>)
      else Inl UniqueViolation)"

text \<open>\<^verbatim>\<open>save\<close> of an object without an id inserts a row and returns it with its id.\<close>

definition insert_post :: "store \<Rightarrow> post \<Rightarrow> error + (store \<times> post)" where
  "insert_post st p =
     (let p' = p\<lparr>post_id := fresh_id (rows st)\<rparr>
      in case commit st (rows st @ [p']) (Insert p') of
           Inl e \<Rightarrow> Inl e
         | Inr st' \<Rightarrow> Inr (st', p'))"

text \<open>\<^verbatim>\<open>save\<close> of a loaded entity writes it back to the row with its id.\<close>

definition save_post :: "store \<Rightarrow> post \<Rightarrow> error + (store \<times> post)" where
  "save_post st p =
     (case commit st (map (\<lambda>r. if post_id r = post_id p then p else r) (rows st)) (Save p) of
        Inl e \<Rightarrow> Inl e
      | Inr st' \<Rightarrow> Inr (st', p))"

text \<open>
  The handlers that catch a store error translate the uniqueness violation
  (\<^verbatim>\<open>err?.code === '23505'\<close>) into \<^verbatim>\<open>duplicate_slug\<close> and rethrow every other error.
\<close>

definition catch_23505 :: "error + 'a \<Rightarrow> error + 'a" where
  "catch_23505 r =
     (case r of
        Inl e \<Rightarrow> if e = UniqueViolation then Inl DuplicateSlug else Inl e
      | Inr v \<Rightarrow> Inr v)"

text \<open>JavaScript truthiness of an optional string and of an optional numeric id.\<close>

definition truthy_str :: "string option \<Rightarrow> bool" where
  "truthy_str s = (case s of None \<Rightarrow> False | Some t \<Rightarrow> t \<noteq> [])"

definition truthy_id :: "nat option \<Rightarrow> bool" where
  "truthy_id i = (case i of None \<Rightarrow> False | Some n \<Rightarrow> n \<noteq> 0)"

section \<open>Version snapshots\<close>

text \<open>
  \<^verbatim>\<open>createPostVersion(postRepository, post, author)\<close>, lines 41-61. The two calls of
  \<^verbatim>\<open>uuidv4()\<close> are the arguments \<open>u1\<close> and \<open>u2\<close>. Only the key and the value of each
  meta entry are copied.
\<close>

definition createPostVersion ::
  "store \<Rightarrow> string \<Rightarrow> string \<Rightarrow> post \<Rightarrow> nat option \<Rightarrow> error + (store \<times> post)" where
  "createPostVersion st u1 u2 p usr =
     insert_post st
       (blank_post
          \<lparr> ptype := ''post_version'',
            name := name p,
            slug := u1,
            slugPath := u2,
            contentType := contentType p,
            meta := map (\<lambda>m. \<lparr>meta_id = None, mkey = mkey m, mvalue = mvalue m\<rparr>) (meta p),
            tags := tags p,
            author := usr,
            parent := Some (post_id p) \<rparr>)"

text \<open>
  \<^verbatim>\<open>updateMeta(manager, Post, post, metas, pattern?)\<close> is in \<^verbatim>\<open>common/orm-helpers\<close>, which
  is not in \<^verbatim>\<open>src/\<close>. It is the parameter \<open>um\<close>: from the post, the new entries and the
  key pattern (if one is given) it yields the meta entries the post has afterwards. The
  call changes the meta entries of that post, in the loaded entity and in its row.
\<close>

type_synonym update_meta = "post \<Rightarrow> post_meta list \<Rightarrow> string option \<Rightarrow> post_meta list"

definition updateMeta ::
  "update_meta \<Rightarrow> store \<Rightarrow> post \<Rightarrow> post_meta list \<Rightarrow> string option \<Rightarrow> store \<times> post" where
  "updateMeta um st p metas pat =
     (let ms = um p metas pat
      in (st\<lparr>rows := map (\<lambda>r. if post_id r = post_id p then r\<lparr>meta := ms\<rparr> else r) (rows st),
             writes := writes st @ [MetaUpdate (post_id p)]\<rparr>,
          p\<lparr>meta := ms\<rparr>))"

section \<open>Slug paths\<close>

definition starts_with :: "string \<Rightarrow> string \<Rightarrow> bool" where
  "starts_with pre s = (take (length pre) s = pre)"

text \<open>A row is in the subtree of the path \<open>old\<close> when its path is \<open>old\<close> or begins with
  \<open>old\<close> followed by a slash.\<close>

definition in_subtree :: "string \<Rightarrow> string \<Rightarrow> bool" where
  "in_subtree old s = (s = old \<or> starts_with (old @ ''/'') s)"

text \<open>
  Modelled from the spec: \<^verbatim>\<open>getReplaceChildrenQuery('post', 'slugPath', old, new)\<close> of
  \<^verbatim>\<open>common/orm-helpers\<close>, which is not in \<^verbatim>\<open>src/\<close>. The spec: it rewrites every post
  whose \<^verbatim>\<open>slugPath\<close> equals \<open>old\<close> or starts with \<open>old + "/"\<close> by replacing that prefix
  with \<open>new\<close>, as one bulk prefix-replace store operation.
\<close>

definition replace_prefix :: "string \<Rightarrow> string \<Rightarrow> string \<Rightarrow> string" where
  "replace_prefix old new s = (if in_subtree old s then new @ drop (length old) s else s)"

definition replaceChildren :: "store \<Rightarrow> string \<Rightarrow> string \<Rightarrow> error + store" where
  "replaceChildren st old new =
     commit st (map (\<lambda>r. r\<lparr>slugPath := replace_prefix old new (slugPath r)\<rparr>) (rows st))
       (ReplaceChildren old new)"

section \<open>Editing a post\<close>

text \<open>
  \<^verbatim>\<open>PUT /posts/:postId/content\<close>, lines 307-370. \<open>flat\<close> is \<^verbatim>\<open>flatten(req.body)\<close> as a list
  of keys with their values (\<^verbatim>\<open>flatten\<close> is in \<^verbatim>\<open>common/object\<close>, not in \<^verbatim>\<open>src/\<close>).
\<close>

definition update_content ::
  "update_meta \<Rightarrow> store \<Rightarrow> time \<Rightarrow> string \<Rightarrow> string \<Rightarrow> nat option \<Rightarrow> nat \<Rightarrow>
   (string \<times> string) list \<Rightarrow> error + (store \<times> post)" where
  "update_content um st now u1 u2 usr pid flat =
     catch_23505
       (case findOne (rows st) pid of
          None \<Rightarrow> Inl InvalidPost
        | Some p \<Rightarrow>
            (case createPostVersion st u1 u2 p usr of
               Inl e \<Rightarrow> Inl e
             | Inr (st1, v) \<Rightarrow>
                 (case updateMeta um st1 p
                         (map (\<lambda>(k, x). \<lparr>meta_id = None, mkey = ''content.'' @ k, mvalue = x\<rparr>) flat)
                         (Some ''^content'') of
                    (st2, p2) \<Rightarrow> save_post st2 (p2\<lparr>author := usr, updatedAt := Some now\<rparr>))))"

text \<open>
  The body of \<^verbatim>\<open>PUT /posts/:postId\<close>: an optional slug, an optional name and, when
  \<^verbatim>\<open>req.body.tags\<close> is an array, the tag objects with their optional ids.
\<close>

record update_request =
  req_slug :: "string option"
  req_name :: "string option"
  req_tags :: "nat option list option"

text \<open>
  The new path of a renamed post, lines 472-474: the path of the loaded parent, a slash
  and the new slug, or the new slug alone when the post has no parent. The parent is the
  loaded relation: the row the parent id points to.
\<close>

definition newSlugPath :: "post list \<Rightarrow> post \<Rightarrow> string \<Rightarrow> string" where
  "newSlugPath rs p newSlug =
     (case (case parent p of None \<Rightarrow> None | Some q \<Rightarrow> findOne rs q) of
        Some par \<Rightarrow> slugPath par @ ''/'' @ newSlug
      | None \<Rightarrow> newSlug)"

text \<open>
  \<^verbatim>\<open>PUT /posts/:postId\<close>, lines 434-522. \<open>tag_table\<close> holds the ids of the rows of the tag
  table; \<^verbatim>\<open>tagRepository.find\<close> returns the tags whose id is among the truthy ids of
  the request.
\<close>

definition update_post ::
  "store \<Rightarrow> nat list \<Rightarrow> time \<Rightarrow> string \<Rightarrow> string \<Rightarrow> nat option \<Rightarrow> nat \<Rightarrow>
   update_request \<Rightarrow> error + (store \<times> post)" where
  "update_post st tag_table now u1 u2 usr pid rq =
     catch_23505
       (case findOne (rows st) pid of
          None \<Rightarrow> Inl InvalidPost
        | Some p \<Rightarrow>
            if ptype p = ''post_version'' then Inl InvalidPostType
            else
              (case createPostVersion st u1 u2 p usr of
                 Inl e \<Rightarrow> Inl e
               | Inr (st1, v) \<Rightarrow>
                   (case (if truthy_str (req_slug rq) then
                            (let newSlug = the (req_slug rq);
                                 oldSlugPath = slugPath p;
                                 new = newSlugPath (rows st) p newSlug
                             in case replaceChildren st1 oldSlugPath new of
                                  Inl e \<Rightarrow> Inl e
                                | Inr st2 \<Rightarrow> Inr (st2, p\<lparr>slug := newSlug, slugPath := new\<rparr>))
                          else Inr (st1, p)) of
                      Inl e \<Rightarrow> Inl e
                    | Inr (st2, p2) \<Rightarrow>
                        (let p3 = (if truthy_str (req_name rq) then p2\<lparr>name := the (req_name rq)\<rparr>
                                   else p2);
                             p4 = (case req_tags rq of
                                     None \<Rightarrow> p3
                                   | Some ts \<Rightarrow>
                                       p3\<lparr>tags := filter (\<lambda>t. t \<in> set (map the (filter truthy_id ts)))
                                                     tag_table\<rparr>)
                         in save_post st2 (p4\<lparr>updatedAt := Some now\<rparr>)))))"

text \<open>
  \<^verbatim>\<open>POST /posts/:postId/versions/:versionId\<close>, lines 592-637: restore a version. The
  version is looked up by its id, its parent id and its type in one query. There is no
  \<^verbatim>\<open>catch\<close> around this transaction.
\<close>

definition restore_version ::
  "update_meta \<Rightarrow> store \<Rightarrow> string \<Rightarrow> string \<Rightarrow> nat option \<Rightarrow> nat \<Rightarrow> nat \<Rightarrow>
   error + (store \<times> post)" where
  "restore_version um st u1 u2 usr pid vid =
     (case findOne (rows st) pid of
        None \<Rightarrow> Inl InvalidPost
      | Some p \<Rightarrow>
          (case find (\<lambda>r. post_id r = vid \<and> parent r = Some pid \<and> ptype r = ''post_version'')
                  (rows st) of
             None \<Rightarrow> Inl InvalidPostVersion
           | Some postVersion \<Rightarrow>
               (case createPostVersion st u1 u2 p usr of
                  Inl e \<Rightarrow> Inl e
                | Inr (st1, v) \<Rightarrow>
                    (case updateMeta um st1 p (meta postVersion) None of
                       (st2, p2) \<Rightarrow>
                         save_post st2
                           (p2\<lparr>tags := tags postVersion,
                               content := content postVersion,
                               name := name postVersion\<rparr>)))))"

section \<open>Bulk publish and unpublish\<close>

text \<open>The body of \<^verbatim>\<open>PUT /posts/publish\<close>, line 376.\<close>

record publish_request =
  req_publish :: bool
  req_recursive :: bool
  req_ids :: "nat list"
  req_from :: "time option"
  req_until :: "time option"

text \<open>
  \<^verbatim>\<open>postTreeRepository.findDescendants(post)\<close> is the tree repository of the ORM: the
  entity itself and every row below it in the tree that the \<^verbatim>\<open>parent\<close> relation spans.
  A chain of parents in a table of \<open>n\<close> rows is followed for at most \<open>n\<close> steps.
\<close>

fun descends :: "nat \<Rightarrow> post list \<Rightarrow> nat \<Rightarrow> post \<Rightarrow> bool" where
  "descends 0 rs root r = (post_id r = root)"
| "descends (Suc n) rs root r =
     (post_id r = root \<or>
      (case parent r of
         None \<Rightarrow> False
       | Some q \<Rightarrow> (case findOne rs q of None \<Rightarrow> False | Some pr \<Rightarrow> descends n rs root pr)))"

definition findDescendants :: "post list \<Rightarrow> post \<Rightarrow> post list" where
  "findDescendants rs p = filter (descends (length rs) rs (post_id p)) rs"

text \<open>
  Modelled from the spec: the descendant relation as the spec words it, by path: all
  posts whose \<^verbatim>\<open>slugPath\<close> is the post's or begins with the post's followed by a slash.
  Which relation the tree repository follows is declared in \<^verbatim>\<open>post.model\<close>, which is
  not in \<^verbatim>\<open>src/\<close>, so the handler below takes the descendant function as an argument.
\<close>

definition findDescendants_by_path :: "post list \<Rightarrow> post \<Rightarrow> post list" where
  "findDescendants_by_path rs p = filter (\<lambda>r. in_subtree (slugPath p) (slugPath r)) rs"

text \<open>
  The columns that \<^verbatim>\<open>qb.set\<close> writes, lines 387-403. The window of the request is
  \<^verbatim>\<open>publishedFrom || null\<close> and \<^verbatim>\<open>publishedUntil || null\<close>: a bound or none. The two
  readings of the clock in one \<^verbatim>\<open>set\<close> are the one time \<open>now\<close>.
\<close>

definition publish_set :: "time \<Rightarrow> publish_request \<Rightarrow> post \<Rightarrow> post" where
  "publish_set now rq r =
     (if req_publish rq then
        r\<lparr>publishedAt := Some now, status := ''published'', publishedFrom := req_from rq,
          publishedUntil := req_until rq, updatedAt := Some now\<rparr>
      else
        r\<lparr>publishedAt := None, status := ''draft'', publishedFrom := None,
          publishedUntil := None, updatedAt := Some now\<rparr>)"

text \<open>The ids of the \<^verbatim>\<open>where post.id IN (...)\<close> clause, lines 405-416.\<close>

definition publish_targets ::
  "(post list \<Rightarrow> post \<Rightarrow> post list) \<Rightarrow> post list \<Rightarrow> publish_request \<Rightarrow> nat list" where
  "publish_targets fd rs rq =
     (let posts = findByIds rs (req_ids rq)
      in if req_recursive rq then map post_id (concat (map (fd rs) posts))
         else map post_id posts)"

text \<open>\<^verbatim>\<open>PUT /posts/publish\<close>, lines 372-432. The \<^verbatim>\<open>catch\<close> logs and rethrows.\<close>

definition publish_posts ::
  "(post list \<Rightarrow> post \<Rightarrow> post list) \<Rightarrow> store \<Rightarrow> time \<Rightarrow> publish_request \<Rightarrow>
   error + (store \<times> post list)" where
  "publish_posts fd st now rq =
     (let posts = findByIds (rows st) (req_ids rq)
      in if posts = [] then Inl InvalidIds
         else
           (let targets = publish_targets fd (rows st) rq;
                rs = map (\<lambda>r. if post_id r \<in> set targets then publish_set now rq r else r)
                       (rows st)
            in Inr (st\<lparr>rows := rs, writes := writes st @ [BulkUpdate targets]\<rparr>,
                    findByIds rs (req_ids rq))))"

section \<open>Creating and copying posts\<close>

text \<open>The body of \<^verbatim>\<open>POST /posts/:postId/copy\<close>; the name and the slug are required by
  the validation that runs before the handler.\<close>

record copy_request =
  copy_parentId :: "nat option"
  copy_recursive :: bool
  copy_name :: string
  copy_slug :: string

text \<open>Lines 141-147 and 211-217, the same in both handlers: the destination parent,
  looked up when a parent id is given.\<close>

definition find_parent :: "post list \<Rightarrow> nat option \<Rightarrow> error + post option" where
  "find_parent rs parentId =
     (if truthy_id parentId then
        (case findOne rs (the parentId) of
           None \<Rightarrow> Inl InvalidParent
         | Some q \<Rightarrow> Inr (Some q))
      else Inr None)"

text \<open>Lines 248-252: the path of the copy of \<open>child\<close>.\<close>

definition getSlugPath :: "post option \<Rightarrow> post \<Rightarrow> string \<Rightarrow> post \<Rightarrow> string" where
  "getSlugPath par sourcePost sl child =
     (case par of Some q \<Rightarrow> slugPath q @ ''/'' | None \<Rightarrow> []) @ sl
       @ drop (length (slugPath sourcePost)) (slugPath child)"

text \<open>Lines 253-257: the path without its last component (\<^verbatim>\<open>split('/')\<close>, \<^verbatim>\<open>pop()\<close>,
  \<^verbatim>\<open>join('/')\<close>), and the copy made so far that has this path.\<close>

definition dirname :: "string \<Rightarrow> string" where
  "dirname s = rev (drop 1 (dropWhile (\<lambda>c. c \<noteq> CHR ''/'') (rev s)))"

definition getParent :: "post list \<Rightarrow> string \<Rightarrow> post option" where
  "getParent posts sp = find (\<lambda>q. slugPath q = dirname sp) posts"

text \<open>Lines 258-277: the sequential loop over the children; \<open>posts\<close> are the copies
  saved so far.\<close>

fun copy_children ::
  "store \<Rightarrow> post option \<Rightarrow> post \<Rightarrow> copy_request \<Rightarrow> nat option \<Rightarrow> post list \<Rightarrow> post list \<Rightarrow>
   error + (store \<times> post list)" where
  "copy_children st par sourcePost rq usr [] posts = Inr (st, posts)"
| "copy_children st par sourcePost rq usr (child # children) posts =
     (let sp = getSlugPath par sourcePost (copy_slug rq) child;
          is_source = (post_id sourcePost = post_id child);
          postObj =
            blank_post
              \<lparr> ptype := ptype child,
                name := (if is_source then copy_name rq else name child),
                slug := (if is_source then copy_slug rq else slug child),
                slugPath := sp,
                contentType := contentType child,
                meta := map (\<lambda>m. \<lparr>meta_id = None, mkey = mkey m, mvalue = mvalue m\<rparr>) (meta child),
                parent := (if is_source then map_option post_id par
                           else map_option post_id (getParent posts sp)),
                tags := tags child,
                author := usr \<rparr>
      in case insert_post st postObj of
           Inl e \<Rightarrow> Inl e
         | Inr (st', q) \<Rightarrow> copy_children st' par sourcePost rq usr children (posts @ [q]))"

text \<open>
  Lines 210-278, the transaction. Without \<^verbatim>\<open>recursive\<close> the only child is the source
  post, which was loaded without its tags. With \<^verbatim>\<open>recursive\<close> the children are the
  folders, pages and fragments of the subtree of the source in ascending order of
  their paths; the \<^verbatim>\<open>LIKE\<close> pattern is read as a prefix.
\<close>

definition copy_transaction ::
  "store \<Rightarrow> nat option \<Rightarrow> nat \<Rightarrow> copy_request \<Rightarrow> error + (store \<times> post list)" where
  "copy_transaction st usr pid rq =
     (case find_parent (rows st) (copy_parentId rq) of
        Inl e \<Rightarrow> Inl e
      | Inr par \<Rightarrow>
          (case findOne (rows st) pid of
             None \<Rightarrow> Inl InvalidSource
           | Some sourcePost \<Rightarrow>
               (let children =
                  (if copy_recursive rq then
                     sort_key slugPath
                       (filter (\<lambda>r. ptype r \<in> set [''folder'', ''page'', ''fragment'']
                                    \<and> in_subtree (slugPath sourcePost) (slugPath r))
                          (rows st))
                   else [sourcePost\<lparr>tags := []\<rparr>])
                in copy_children st par sourcePost rq usr children [])))"

text \<open>Lines 209 and 279-287: the \<^verbatim>\<open>catch\<close> around the transaction throws
  \<^verbatim>\<open>duplicate_slug\<close> for whatever it catches.\<close>

definition copy_post ::
  "store \<Rightarrow> nat option \<Rightarrow> nat \<Rightarrow> copy_request \<Rightarrow> error + (store \<times> post list)" where
  "copy_post st usr pid rq =
     (case copy_transaction st usr pid rq of
        Inl e \<Rightarrow> Inl DuplicateSlug
      | Inr r \<Rightarrow> Inr r)"

text \<open>The body of \<^verbatim>\<open>POST /posts\<close>.\<close>

record create_request =
  create_parentId :: "nat option"
  create_contentTypeId :: "nat option"
  create_type :: "string option"
  create_name :: string
  create_slug :: string

text \<open>
  \<^verbatim>\<open>POST /posts\<close>, lines 122-190. \<open>content_types\<close> is the table of content types, ids
  with their types. This \<^verbatim>\<open>catch\<close> translates the uniqueness violation only and
  rethrows every other error.
\<close>

definition create_post ::
  "store \<Rightarrow> (nat \<times> string) list \<Rightarrow> nat option \<Rightarrow> create_request \<Rightarrow> error + (store \<times> post)" where
  "create_post st content_types usr rq =
     catch_23505
       (case find_parent (rows st) (create_parentId rq) of
          Inl e \<Rightarrow> Inl e
        | Inr par \<Rightarrow>
            (case (if truthy_id (create_contentTypeId rq) then
                     (case find (\<lambda>(i, t). i = the (create_contentTypeId rq)
                                    \<and> t \<in> set [''post'', ''page'', ''fragment''])
                             content_types of
                        None \<Rightarrow> Inl InvalidContentType
                      | Some (i, t) \<Rightarrow> Inr (Some i))
                   else Inr None) of
               Inl e \<Rightarrow> Inl e
             | Inr ct \<Rightarrow>
                 insert_post st
                   (blank_post
                      \<lparr> name := create_name rq,
                        slug := create_slug rq,
                        ptype := (if truthy_str (create_type rq) then the (create_type rq)
                                  else ''post''),
                        contentType := ct,
                        author := usr,
                        parent := map_option post_id par,
                        slugPath := (case par of
                                       Some q \<Rightarrow> slugPath q @ ''/'' @ create_slug rq
                                     | None \<Rightarrow> create_slug rq) \<rparr>)))"


section \<open>The reference compiler\<close>

text \<open>The depth ceiling, line 26.\<close>

definition maxDebt :: nat where
  "maxDebt = 3"

text \<open>
  \<^verbatim>\<open>parseContent(post)\<close> (\<^verbatim>\<open>common/post.parser\<close>, not in \<^verbatim>\<open>src/\<close>) returns the content
  tree and two objects that map a content path to the id of a referenced asset or post;
  an id may be missing. The content tree is of a type \<open>'c\<close> that the compiler only
  hands to \<^verbatim>\<open>_.set\<close> and \<^verbatim>\<open>_.get\<close>.
\<close>

record 'c parsed =
  parsed_content :: 'c
  parsed_assets :: "(string \<times> nat option) list"
  parsed_references :: "(string \<times> nat option) list"

text \<open>The result \<^verbatim>\<open>{...post, meta: {...post.meta, content}}\<close>, lines 735-741: the mapped
  public post and the content put under its meta.\<close>

record ('c, 'p) compiled =
  compiled_post :: 'p
  compiled_content :: 'c

text \<open>
  What the compiler calls and \<^verbatim>\<open>src/\<close> does not hold, as parameters: the parser, the
  mappers of \<^verbatim>\<open>common/mappers\<close> to the public shape of a post (of type \<open>'p\<close>) and of an
  asset (from a row of type \<open>'a\<close> to \<open>'b\<close>), the \<^verbatim>\<open>id\<close> property of a mapped post, and the
  two ways the content is written: \<open>set_path c key v\<close> is \<^verbatim>\<open>_.set(content, key, v)\<close> with a
  compiled post or \<^verbatim>\<open>undefined\<close>, and \<open>merge_path c key x\<close> is
  \<^verbatim>\<open>_.set(content, key, {..._.get(content, key, {}), ...(x || {})})\<close>.
\<close>

record ('c, 'p, 'a, 'b) env =
  parseContent :: "post \<Rightarrow> 'c parsed"
  mapPublicPostWithMeta :: "post \<Rightarrow> 'p"
  public_id :: "'p \<Rightarrow> nat option"
  set_path :: "'c \<Rightarrow> string \<Rightarrow> ('c, 'p) compiled option \<Rightarrow> 'c"
  mapPublicAsset :: "'a \<Rightarrow> 'b"
  merge_path :: "'c \<Rightarrow> string \<Rightarrow> 'b option \<Rightarrow> 'c"

text \<open>The first argument of \<^verbatim>\<open>compilePost\<close>: \<^verbatim>\<open>{ slugPath?, id?, allowNull? }\<close>.\<close>

record compile_args =
  arg_slugPath :: "string option"
  arg_id :: "nat option"
  arg_allowNull :: bool

text \<open>\<^verbatim>\<open>_.uniq\<close> keeps the first occurrence of every value; \<open>seen\<close> holds the values met.\<close>

fun uniq :: "'x list \<Rightarrow> 'x list \<Rightarrow> 'x list" where
  "uniq seen [] = []"
| "uniq seen (x # xs) = (if x \<in> set seen then uniq seen xs else x # uniq (x # seen) xs)"

text \<open>\<^verbatim>\<open>_.uniq(Object.values(refs || {})).filter(id => !!id)\<close>, lines 700 and 714.\<close>

definition truthy_ids :: "(string \<times> nat option) list \<Rightarrow> nat list" where
  "truthy_ids refs = map the (filter truthy_id (uniq [] (map snd refs)))"

text \<open>Lines 683-686.\<close>

definition getReturn :: "compile_args \<Rightarrow> error + post option" where
  "getReturn a = (if arg_allowNull a then Inr None else Inl InvalidPost)"

text \<open>
  Lines 667-689: the post to compile. It is the data when data is given; otherwise it is
  looked up by path or else by id, and must be published at the time \<open>now\<close>. With an
  empty \<^verbatim>\<open>where\<close> the lookup would return the first row; the test of line 667 excludes
  that case.
\<close>

definition resolve_post :: "post list \<Rightarrow> time \<Rightarrow> compile_args \<Rightarrow> post option \<Rightarrow> error + post option" where
  "resolve_post rs now a data =
     (if \<not> truthy_str (arg_slugPath a) \<and> \<not> truthy_id (arg_id a) \<and> data = None
      then Inl InvalidPost
      else
        (case data of
           Some d \<Rightarrow> Inr (Some d)
         | None \<Rightarrow>
             (let post =
                (if truthy_str (arg_slugPath a)
                 then find (\<lambda>r. slugPath r = the (arg_slugPath a)) rs
                 else if truthy_id (arg_id a) then findOne rs (the (arg_id a))
                 else (case rs of [] \<Rightarrow> None | r # _ \<Rightarrow> Some r))
              in if post = None then getReturn a
                 else if \<not> isPostPublished now post then getReturn a
                 else Inr post)))"

text \<open>\<^verbatim>\<open>Promise.all\<close>: the results in order, or an error when a promise is rejected (of
  several rejections, the one first in the list).\<close>

fun promise_all :: "(error + 'x) list \<Rightarrow> error + 'x list" where
  "promise_all [] = Inr []"
| "promise_all (r # rs) =
     (case r of
        Inl e \<Rightarrow> Inl e
      | Inr v \<Rightarrow> (case promise_all rs of Inl e \<Rightarrow> Inl e | Inr vs \<Rightarrow> Inr (v # vs)))"

text \<open>
  Lines 704-707: \<^verbatim>\<open>postsObj[post.id] = post\<close> for each compiled post in order, so of two
  with one id the later stays; \<open>postsObj_lookup\<close> is \<^verbatim>\<open>postsObj[ref]\<close>. Reading
  \<^verbatim>\<open>post.id\<close> when a compiled post is \<^verbatim>\<open>null\<close> throws a \<^verbatim>\<open>TypeError\<close>.
\<close>

definition postsObj_lookup ::
  "('c, 'p, 'a, 'b) env \<Rightarrow> ('c, 'p) compiled list \<Rightarrow> nat option \<Rightarrow> ('c, 'p) compiled option" where
  "postsObj_lookup E posts ref =
     (case ref of
        None \<Rightarrow> None
      | Some i \<Rightarrow>
          (case filter (\<lambda>c. public_id E (compiled_post c) = Some i) posts of
             [] \<Rightarrow> None
           | c # cs \<Rightarrow> Some (last (c # cs))))"

text \<open>Lines 704-711: every key of \<^verbatim>\<open>references\<close> is set, to the compiled post of its id
  or to \<^verbatim>\<open>undefined\<close>.\<close>

definition inject_references ::
  "('c, 'p, 'a, 'b) env \<Rightarrow> (string \<times> nat option) list \<Rightarrow> ('c, 'p) compiled option list \<Rightarrow> 'c \<Rightarrow>
   error + 'c" where
  "inject_references E refs posts c =
     (case those posts of
        None \<Rightarrow> Inl TypeError
      | Some cs \<Rightarrow> Inr (fold (\<lambda>(key, ref) c'. set_path E c' key (postsObj_lookup E cs ref)) refs c))"

text \<open>
  Lines 714-733. \<open>assets\<close> is the asset table, ids with rows; \<^verbatim>\<open>assetsObj\<close> holds the
  mapped rows whose id is among the truthy asset ids.
\<close>

definition inject_assets ::
  "('c, 'p, 'a, 'b) env \<Rightarrow> (nat \<times> 'a) list \<Rightarrow> (string \<times> nat option) list \<Rightarrow> 'c \<Rightarrow> 'c" where
  "inject_assets E assets arefs c =
     (let assetsIds = truthy_ids arefs
      in if assetsIds \<noteq> [] then
           fold (\<lambda>(key, ref) c'.
                   merge_path E c' key
                     (case ref of
                        None \<Rightarrow> None
                      | Some i \<Rightarrow>
                          if i \<in> set assetsIds
                          then map_option (mapPublicAsset E) (map_of (rev assets) i)
                          else None))
             arefs c
         else c)"

text \<open>
  \<^verbatim>\<open>compilePost({ slugPath, id, allowNull }, data, debt)\<close>, lines 659-742. The result is
  an error, \<^verbatim>\<open>null\<close> or the compiled post. The clock is read once.
\<close>

function compilePost ::
  "('c, 'p, 'a, 'b) env \<Rightarrow> post list \<Rightarrow> (nat \<times> 'a) list \<Rightarrow> time \<Rightarrow> compile_args \<Rightarrow>
   post option \<Rightarrow> nat \<Rightarrow> error + ('c, 'p) compiled option" where
  "compilePost E rs assets now a data debt =
     (case resolve_post rs now a data of
        Inl e \<Rightarrow> Inl e
      | Inr None \<Rightarrow> Inr None
      | Inr (Some post) \<Rightarrow>
          (let parsed = parseContent E post;
               pub = mapPublicPostWithMeta E post;
               referencesIds = truthy_ids (parsed_references parsed)
           in case (if referencesIds \<noteq> [] \<and> debt < maxDebt then
                      (case promise_all
                              (map (\<lambda>i. compilePost E rs assets now
                                           \<lparr>arg_slugPath = None, arg_id = Some i, arg_allowNull = True\<rparr>
                                           None (debt + 1))
                                 referencesIds) of
                         Inl e \<Rightarrow> Inl e
                       | Inr posts \<Rightarrow>
                           inject_references E (parsed_references parsed) posts (parsed_content parsed))
                    else Inr (parsed_content parsed)) of
                Inl e \<Rightarrow> Inl e
              | Inr c \<Rightarrow>
                  Inr (Some \<lparr>compiled_post = pub,
                             compiled_content = inject_assets E assets (parsed_assets parsed) c\<rparr>)))"
  by pat_completeness auto
termination
  by (relation "measure (\<lambda>(E, rs, assets, now, a, data, debt). maxDebt - debt)") auto

text \<open>The callers: \<^verbatim>\<open>GET /content/*\<close> compiles by path, \<^verbatim>\<open>POST /posts/compile\<close> compiles
  the data of the request; both start at depth 0.\<close>

definition compile_by_path ::
  "('c, 'p, 'a, 'b) env \<Rightarrow> post list \<Rightarrow> (nat \<times> 'a) list \<Rightarrow> time \<Rightarrow> string \<Rightarrow>
   error + ('c, 'p) compiled option" where
  "compile_by_path E rs assets now path =
     compilePost E rs assets now \<lparr>arg_slugPath = Some path, arg_id = None, arg_allowNull = False\<rparr>
       None 0"

definition compile_data ::
  "('c, 'p, 'a, 'b) env \<Rightarrow> post list \<Rightarrow> (nat \<times> 'a) list \<Rightarrow> time \<Rightarrow> post \<Rightarrow>
   error + ('c, 'p) compiled option" where
  "compile_data E rs assets now d =
     compilePost E rs assets now \<lparr>arg_slugPath = None, arg_id = None, arg_allowNull = False\<rparr>
       (Some d) 0"

section \<open>What a snapshot carries\<close>

text \<open>
  A row \<open>v\<close> is a snapshot of the post \<open>p\<close> taken for the user \<open>usr\<close>: a
  \<^verbatim>\<open>post_version\<close> whose parent is \<open>p\<close>, with the name, the meta keys and values, the
  tags and the content type of \<open>p\<close>.
\<close>

definition snapshot_of :: "post \<Rightarrow> nat option \<Rightarrow> post \<Rightarrow> bool" where
  "snapshot_of p usr v =
     (ptype v = ''post_version'' \<and> parent v = Some (post_id p) \<and> name v = name p \<and>
      map (\<lambda>m. (mkey m, mvalue m)) (meta v) = map (\<lambda>m. (mkey m, mvalue m)) (meta p) \<and>
      tags v = tags p \<and> contentType v = contentType p \<and> author v = usr)"

section \<open>Example data\<close>

text \<open>A meta helper that replaces all entries of the post by the new ones.\<close>

definition replace_all_meta :: update_meta where
  "replace_all_meta p ms pat = ms"

text \<open>A published page with one stored version.\<close>

definition ex_home :: post where
  "ex_home = blank_post
     \<lparr> post_id := 1, ptype := ''page'', name := ''Home'', slug := ''home'', slugPath := ''home'',
       status := ''published'', publishedAt := Some 10,
       meta := [\<lparr>meta_id = Some 1, mkey = ''content.title'', mvalue = ''new''\<rparr>],
       tags := [4], content := Some ''live'' \<rparr>"

definition ex_home_version :: post where
  "ex_home_version = blank_post
     \<lparr> post_id := 2, ptype := ''post_version'', name := ''Old home'', slug := ''u-1'',
       slugPath := ''u-2'', parent := Some 1,
       meta := [\<lparr>meta_id = Some 2, mkey = ''content.title'', mvalue = ''old''\<rparr>],
       tags := [7] \<rparr>"

definition ex_store :: store where
  "ex_store = \<lparr> rows = [ex_home, ex_home_version], writes = [] \<rparr>"

text \<open>Requests to publish, with a window that starts at 60, and to unpublish.\<close>

definition ex_publish :: "bool \<Rightarrow> nat list \<Rightarrow> publish_request" where
  "ex_publish rec ids =
     \<lparr> req_publish = True, req_recursive = rec, req_ids = ids, req_from = Some 60,
       req_until = None \<rparr>"

definition ex_unpublish :: "nat list \<Rightarrow> publish_request" where
  "ex_unpublish ids =
     \<lparr> req_publish = False, req_recursive = False, req_ids = ids, req_from = None,
       req_until = None \<rparr>"

section \<open>The writes of an edit\<close>

text \<open>
  The store \<open>st'\<close> results from \<open>st\<close> by an edit of the post \<open>p\<close> that begins with a
  snapshot: the first new write inserts a snapshot of \<open>p\<close>, no later write of the
  edit inserts a row, and the table has its old ids and, last, the new id of the
  snapshot.
\<close>

fun is_insert :: "store_write \<Rightarrow> bool" where
  "is_insert (Insert p) = True"
| "is_insert w = False"

definition snapshot_first :: "store \<Rightarrow> store \<Rightarrow> post \<Rightarrow> nat option \<Rightarrow> bool" where
  "snapshot_first st st' p usr =
     (take (length (writes st)) (writes st') = writes st \<and>
      (case drop (length (writes st)) (writes st') of
         Insert v # ws \<Rightarrow>
           snapshot_of p usr v \<and> list_all (\<lambda>w. \<not> is_insert w) ws \<and>
           post_id v \<notin> set (map post_id (rows st)) \<and>
           map post_id (rows st') = map post_id (rows st) @ [post_id v]
       | _ \<Rightarrow> False))"


text \<open>A folder with a page, a fragment below the page, and a root page \<open>ab\<close>.\<close>

definition ex_tree :: store where
  "ex_tree =
     \<lparr> rows =
         [blank_post\<lparr>post_id := 1, ptype := ''folder'', name := ''A'', slug := ''a'', slugPath := ''a''\<rparr>,
          blank_post\<lparr>post_id := 2, ptype := ''page'', name := ''B'', slug := ''b'', slugPath := ''a/b'',
                      parent := Some 1\<rparr>,
          blank_post\<lparr>post_id := 3, ptype := ''page'', name := ''AB'', slug := ''ab'', slugPath := ''ab''\<rparr>,
          blank_post\<lparr>post_id := 4, ptype := ''fragment'', name := ''C'', slug := ''c'',
                      slugPath := ''a/b/c'', parent := Some 2\<rparr>],
       writes = [] \<rparr>"

definition ex_rename :: "string \<Rightarrow> update_request" where
  "ex_rename s = \<lparr> req_slug = Some s, req_name = None, req_tags = None \<rparr>"


text \<open>The arguments of a sub-compile, line 703: \<^verbatim>\<open>{ id, allowNull: true }\<close>.\<close>

definition by_id :: "nat \<Rightarrow> compile_args" where
  "by_id i = \<lparr>arg_slugPath = None, arg_id = Some i, arg_allowNull = True\<rparr>"


section \<open>Example content\<close>

text \<open>
  A content tree for the examples: a list of content paths with their nodes. A node is
  a text, the placeholder of a reference, \<^verbatim>\<open>undefined\<close>, an embedded compiled post or
  the data of an asset. The parser of the examples gives every post a title and the
  references that a table assigns to its id; the mappers are identities.
\<close>

datatype node =
    Text string
  | Placeholder "nat option"
  | Undefined
  | Embedded post "(string \<times> node) list"
  | AssetData string

fun put :: "string \<Rightarrow> node \<Rightarrow> (string \<times> node) list \<Rightarrow> (string \<times> node) list" where
  "put k v [] = [(k, v)]"
| "put k v ((k', v') # kvs) = (if k = k' then (k, v) # kvs else (k', v') # put k v kvs)"

definition ex_env ::
  "(nat \<Rightarrow> (string \<times> nat option) list) \<Rightarrow> ((string \<times> node) list, post, string, string) env" where
  "ex_env refs =
     \<lparr> parseContent = (\<lambda>p.
         \<lparr> parsed_content =
             (''title'', Text (name p)) # map (\<lambda>(k, r). (k, Placeholder r)) (refs (post_id p)),
           parsed_assets = [],
           parsed_references = refs (post_id p) \<rparr>),
       mapPublicPostWithMeta = (\<lambda>p. p),
       public_id = (\<lambda>p. Some (post_id p)),
       set_path = (\<lambda>c k v.
         put k (case v of None \<Rightarrow> Undefined
                | Some x \<Rightarrow> Embedded (compiled_post x) (compiled_content x)) c),
       mapPublicAsset = (\<lambda>a. a),
       merge_path = (\<lambda>c k x. case x of None \<Rightarrow> c | Some a \<Rightarrow> put k (AssetData a) c) \<rparr>"

definition ex_page :: "nat \<Rightarrow> string \<Rightarrow> string \<Rightarrow> post" where
  "ex_page i s st =
     blank_post\<lparr>post_id := i, ptype := ''page'', name := s, slug := s, slugPath := s, status := st\<rparr>"

definition ex_cycle :: "post list" where
  "ex_cycle = [ex_page 10 ''a'' ''published'', ex_page 20 ''b'' ''published'',
               ex_page 30 ''c'' ''published'']"

definition ex_cycle_refs :: "nat \<Rightarrow> (string \<times> nat option) list" where
  "ex_cycle_refs i =
     (if i = 10 then [(''next'', Some 20)]
      else if i = 20 then [(''next'', Some 30)]
      else if i = 30 then [(''next'', Some 10)]
      else [])"


text \<open>The results of compiling the cycle \<open>a \<rightarrow> b \<rightarrow> c \<rightarrow> a\<close> from \<open>a\<close>, innermost
  first: \<open>a\<close> at depth 3, with its reference left as a placeholder.\<close>

definition ex_a_at_ceiling :: "((string \<times> node) list, post) compiled" where
  "ex_a_at_ceiling = \<lparr>compiled_post = ex_page 10 ''a'' ''published'',
          compiled_content = [(''title'', Text ''a''), (''next'', Placeholder (Some 20))]\<rparr>"

definition ex_c_compiled :: "((string \<times> node) list, post) compiled" where
  "ex_c_compiled = \<lparr>compiled_post = ex_page 30 ''c'' ''published'',
          compiled_content = [(''title'', Text ''c''),
             (''next'', Embedded (compiled_post ex_a_at_ceiling) (compiled_content ex_a_at_ceiling))]\<rparr>"

definition ex_b_compiled :: "((string \<times> node) list, post) compiled" where
  "ex_b_compiled = \<lparr>compiled_post = ex_page 20 ''b'' ''published'',
          compiled_content = [(''title'', Text ''b''),
             (''next'', Embedded (compiled_post ex_c_compiled) (compiled_content ex_c_compiled))]\<rparr>"

definition ex_a_compiled :: "((string \<times> node) list, post) compiled" where
  "ex_a_compiled = \<lparr>compiled_post = ex_page 10 ''a'' ''published'',
          compiled_content = [(''title'', Text ''a''),
             (''next'', Embedded (compiled_post ex_b_compiled) (compiled_content ex_b_compiled))]\<rparr>"


text \<open>A published page that refers to the post \<open>t\<close>, and a table in which the post 20 is
  a draft and no post 40 exists.\<close>

definition ex_refs_to :: "nat \<Rightarrow> nat \<Rightarrow> (string \<times> nat option) list" where
  "ex_refs_to t i = (if i = 10 then [(''next'', Some t)] else [])"

definition ex_broken :: "post list" where
  "ex_broken = [ex_page 10 ''a'' ''published'', ex_page 20 ''b'' ''draft'']"


text \<open>Requests to copy a post to the slug \<open>s\<close> and to create a post with the slug
  \<open>s\<close>.\<close>

definition ex_copy :: "nat option \<Rightarrow> bool \<Rightarrow> string \<Rightarrow> copy_request" where
  "ex_copy par rec s =
     \<lparr> copy_parentId = par, copy_recursive = rec, copy_name = s, copy_slug = s \<rparr>"

definition ex_create :: "nat option \<Rightarrow> string \<Rightarrow> create_request" where
  "ex_create par s =
     \<lparr> create_parentId = par, create_contentTypeId = None, create_type = None,
       create_name = s, create_slug = s \<rparr>"


section \<open>Effective visibility\<close>

text \<open>
  Claim C5. For every post and every time \<open>now\<close>, the post is effectively visible
  exactly when its status is \<^verbatim>\<open>published\<close>, \<open>now\<close> is not before \<open>publishedFrom\<close>
  (when that bound is set) and \<open>now\<close> is not after \<open>publishedUntil\<close> (when that bound is
  set); an absent bound imposes no constraint, and an absent post is not visible.
\<close>

theorem isPostPublished_visibility:
  "isPostPublished now (Some p) =
     (status p = ''published''
      \<and> (\<forall>f. publishedFrom p = Some f \<longrightarrow> \<not> now < f)
      \<and> (\<forall>u. publishedUntil p = Some u \<longrightarrow> \<not> now > u))
   \<and> \<not> isPostPublished now None"
  by (simp add: isPostPublished_def split: option.split)

theorem isPostPublished_visibility_witness:
  "\<not> isPostPublished 100
       (Some (blank_post\<lparr>status := ''published'', publishedFrom := Some 200\<rparr>))
   \<and> \<not> isPostPublished 100
       (Some (blank_post\<lparr>status := ''published'', publishedUntil := Some 50\<rparr>))
   \<and> isPostPublished 100 (Some (blank_post\<lparr>status := ''published''\<rparr>))
   \<and> isPostPublished 100
       (Some (blank_post\<lparr>status := ''published'', publishedFrom := Some 100,
                publishedUntil := Some 100\<rparr>))
   \<and> \<not> isPostPublished 100 (Some (blank_post\<lparr>publishedFrom := Some 50\<rparr>))"
  using isPostPublished_visibility [of 100 "blank_post\<lparr>status := ''published'', publishedFrom := Some 200\<rparr>"]
    isPostPublished_visibility [of 100 "blank_post\<lparr>status := ''published'', publishedUntil := Some 50\<rparr>"]
    isPostPublished_visibility [of 100 "blank_post\<lparr>status := ''published''\<rparr>"]
    isPostPublished_visibility [of 100 "blank_post\<lparr>status := ''published'', publishedFrom := Some 100, publishedUntil := Some 100\<rparr>"]
    isPostPublished_visibility [of 100 "blank_post\<lparr>publishedFrom := Some 50\<rparr>"]
  by (simp add: blank_post_def)

section \<open>Facts about the store\<close>

lemma findOne_SomeD: "findOne rs i = Some p \<Longrightarrow> p \<in> set rs \<and> post_id p = i"
  by (auto simp: findOne_def find_Some_iff)

lemma findOne_None_iff: "findOne rs i = None \<longleftrightarrow> i \<notin> post_id ` set rs"
  by (auto simp: findOne_def find_None_iff)

lemma fold_max_ge: "(a::nat) \<le> fold max xs a"
  by (induction xs arbitrary: a) (auto intro: order_trans [OF max.cobounded2])

lemma fold_max_mem: "(x::nat) \<in> set xs \<Longrightarrow> x \<le> fold max xs a"
proof (induction xs arbitrary: a)
  case Nil
  then show ?case by simp
next
  case (Cons y ys)
  show ?case
  proof (cases "x = y")
    case True
    have "y \<le> max y a" by simp
    also have "\<dots> \<le> fold max ys (max y a)" by (rule fold_max_ge)
    finally show ?thesis using True by simp
  next
    case False
    with Cons show ?thesis by simp
  qed
qed

lemma fresh_id_gt: "r \<in> set rs \<Longrightarrow> post_id r < fresh_id rs"
  unfolding fresh_id_def using fold_max_mem [of "post_id r" "map post_id rs" 0] by auto

lemma commit_InrD:
  "commit st rs w = Inr st' \<Longrightarrow> st' = st\<lparr>rows := rs, writes := writes st @ [w]\<rparr> \<and> unique_paths rs"
  by (auto simp: commit_def split: if_splits)

lemma insert_post_InrD:
  "insert_post st p = Inr (st', p') \<Longrightarrow>
     p' = p\<lparr>post_id := fresh_id (rows st)\<rparr> \<and> rows st' = rows st @ [p'] \<and>
     writes st' = writes st @ [Insert p'] \<and> unique_paths (rows st')"
  by (auto simp: insert_post_def Let_def split: sum.splits dest!: commit_InrD)

lemma save_post_InrD:
  "save_post st p = Inr (st', p') \<Longrightarrow>
     p' = p \<and> rows st' = map (\<lambda>r. if post_id r = post_id p then p else r) (rows st) \<and>
     writes st' = writes st @ [Save p] \<and> unique_paths (rows st')"
  by (auto simp: save_post_def split: sum.splits dest!: commit_InrD)

lemma createPostVersion_InrD:
  "createPostVersion st u1 u2 p usr = Inr (st', v) \<Longrightarrow>
     rows st' = rows st @ [v] \<and> writes st' = writes st @ [Insert v] \<and>
     post_id v = fresh_id (rows st) \<and> ptype v = ''post_version'' \<and> name v = name p \<and>
     slug v = u1 \<and> slugPath v = u2 \<and> contentType v = contentType p \<and>
     meta v = map (\<lambda>m. \<lparr>meta_id = None, mkey = mkey m, mvalue = mvalue m\<rparr>) (meta p) \<and>
     tags v = tags p \<and> author v = usr \<and> parent v = Some (post_id p)"
  by (auto simp: createPostVersion_def blank_post_def dest!: insert_post_InrD)

lemma createPostVersion_ok:
  "unique_paths (rows st) \<Longrightarrow> u2 \<notin> set (map slugPath (rows st)) \<Longrightarrow>
   \<exists>st' v. createPostVersion st u1 u2 p usr = Inr (st', v)"
  by (auto simp: createPostVersion_def insert_post_def commit_def unique_paths_def Let_def)

lemma same_id_same_row:
  "distinct (map post_id rs) \<Longrightarrow> p \<in> set rs \<Longrightarrow> r \<in> set rs \<Longrightarrow> post_id r = post_id p \<Longrightarrow> r = p"
  by (meson distinct_map inj_onD)

lemma findOne_replace:
  "findOne rs i = Some p \<Longrightarrow> post_id q = i \<Longrightarrow>
   findOne (map (\<lambda>r. if post_id r = i then q else r) rs @ ys) i = Some q"
  by (induction rs) (auto simp: findOne_def split: if_splits)

lemma find_version_SomeD:
  "find (\<lambda>r. post_id r = vid \<and> parent r = Some pid \<and> ptype r = ''post_version'') rs = Some V \<Longrightarrow>
   V \<in> set rs \<and> post_id V = vid \<and> parent V = Some pid \<and> ptype V = ''post_version''"
  by (auto simp: find_Some_iff)

lemma find_version_eq_findOne:
  assumes "distinct (map post_id rs)" and "findOne rs vid = Some V"
  shows "find (\<lambda>r. post_id r = vid \<and> parent r = Some pid \<and> ptype r = ''post_version'') rs =
         (if parent V = Some pid \<and> ptype V = ''post_version'' then Some V else None)"
proof (cases "find (\<lambda>r. post_id r = vid \<and> parent r = Some pid \<and> ptype r = ''post_version'') rs")
  case None
  with findOne_SomeD [OF assms(2)] show ?thesis
    by (auto simp: find_None_iff)
next
  case (Some W)
  from find_version_SomeD [OF Some] findOne_SomeD [OF assms(2)] assms(1)
  have "W = V" by (auto intro: same_id_same_row)
  with Some find_version_SomeD [OF Some] show ?thesis by simp
qed

lemma find_version_None:
  "findOne rs vid = None \<Longrightarrow>
   find (\<lambda>r. post_id r = vid \<and> parent r = Some pid \<and> ptype r = ''post_version'') rs = None"
  by (auto simp: findOne_def find_None_iff)

lemma replace_after_meta:
  "map (\<lambda>r. if post_id r = i then q else r) (map (\<lambda>r. if post_id r = i then r\<lparr>meta := ms\<rparr> else r) rs) =
   map (\<lambda>r. if post_id r = i then q else r) rs"
  by (induction rs) auto

lemma restore_version_result:
  assumes P: "findOne (rows st) pid = Some p"
      and V: "find (\<lambda>r. post_id r = vid \<and> parent r = Some pid \<and> ptype r = ''post_version'') (rows st) = Some V"
      and R: "restore_version um st u1 u2 usr pid vid = Inr (st', p')"
  shows "\<exists>st1 v. createPostVersion st u1 u2 p usr = Inr (st1, v) \<and>
           p' = p\<lparr>meta := um p (meta V) None, tags := tags V, content := content V, name := name V\<rparr> \<and>
           rows st' = map (\<lambda>r. if post_id r = pid then p' else r) (rows st) @ [v] \<and>
           writes st' = writes st @ [Insert v, MetaUpdate pid, Save p']"
proof -
  from R P V obtain st1 v where C: "createPostVersion st u1 u2 p usr = Inr (st1, v)"
    by (auto simp: restore_version_def split: sum.splits)
  note cv = createPostVersion_InrD [OF C]
  from findOne_SomeD [OF P] have pin: "p \<in> set (rows st)" and pid: "post_id p = pid" by auto
  from fresh_id_gt [OF pin] cv pid have vne: "post_id v \<noteq> pid" by simp
  define p3 where "p3 = p\<lparr>meta := um p (meta V) None, tags := tags V, content := content V, name := name V\<rparr>"
  from R P V C have S: "save_post (fst (updateMeta um st1 p (meta V) None)) p3 = Inr (st', p')"
    by (simp add: restore_version_def updateMeta_def Let_def p3_def)
  note sv = save_post_InrD [OF S]
  have "p' = p3" using sv by simp
  moreover have "rows st' = map (\<lambda>r. if post_id r = pid then p3 else r) (rows st) @ [v]"
    using sv cv vne pid by (simp add: updateMeta_def Let_def p3_def comp_def cong: if_cong)
  moreover have "writes st' = writes st @ [Insert v, MetaUpdate pid, Save p3]"
    using sv cv pid by (simp add: updateMeta_def Let_def)
  ultimately show ?thesis using C by (auto simp: p3_def)
qed

lemma updateMeta_fst_rows:
  "rows (fst (updateMeta um st p ms pat)) =
     map (\<lambda>r. if post_id r = post_id p then r\<lparr>meta := um p ms pat\<rparr> else r) (rows st)"
  by (simp add: updateMeta_def Let_def)

lemma updateMeta_fst_writes:
  "writes (fst (updateMeta um st p ms pat)) = writes st @ [MetaUpdate (post_id p)]"
  by (simp add: updateMeta_def Let_def)

lemma updateMeta_snd: "snd (updateMeta um st p ms pat) = p\<lparr>meta := um p ms pat\<rparr>"
  by (simp add: updateMeta_def Let_def)

lemma restore_version_ok:
  assumes P: "findOne (rows st) pid = Some p"
      and V: "find (\<lambda>r. post_id r = vid \<and> parent r = Some pid \<and> ptype r = ''post_version'') (rows st) = Some V"
      and D: "distinct (map post_id (rows st))"
      and U: "unique_paths (rows st)" and F: "u2 \<notin> set (map slugPath (rows st))"
  shows "\<exists>st' p'. restore_version um st u1 u2 usr pid vid = Inr (st', p')"
proof -
  from createPostVersion_ok [OF U F] obtain st1 v
    where C: "createPostVersion st u1 u2 p usr = Inr (st1, v)" by blast
  note cv = createPostVersion_InrD [OF C]
  from findOne_SomeD [OF P] have pin: "p \<in> set (rows st)" and pid: "post_id p = pid" by auto
  from fresh_id_gt [OF pin] cv pid have vne: "post_id v \<noteq> pid" by simp
  define ms where "ms = um p (meta V) None"
  define p3 where "p3 = p\<lparr>meta := ms, tags := tags V, content := content V, name := name V\<rparr>"
  define st2 where "st2 = fst (updateMeta um st1 p (meta V) None)"
  have p3id: "post_id p3 = pid" using pid by (simp add: p3_def)
  have r2: "rows st2 = map (\<lambda>r. if post_id r = pid then r\<lparr>meta := ms\<rparr> else r) (rows st) @ [v]"
    using cv vne pid by (simp add: st2_def updateMeta_fst_rows ms_def)
  have r3: "map (\<lambda>r. if post_id r = post_id p3 then p3 else r) (rows st2) =
            map (\<lambda>r. if post_id r = pid then p3 else r) (rows st) @ [v]"
    unfolding r2 p3id using vne replace_after_meta [of pid p3 ms "rows st"] by simp
  have same: "\<And>r. r \<in> set (rows st) \<Longrightarrow> post_id r = pid \<Longrightarrow> slugPath p3 = slugPath r"
    using same_id_same_row [OF D pin] pid by (auto simp: p3_def)
  have eq: "map (slugPath \<circ> (\<lambda>r. if post_id r = pid then p3 else r)) (rows st) = map slugPath (rows st)"
    by (rule map_cong) (auto simp: same)
  have "unique_paths (map (\<lambda>r. if post_id r = pid then p3 else r) (rows st) @ [v])"
    using U F cv by (simp add: unique_paths_def eq)
  then have "\<exists>st'. save_post st2 p3 = Inr (st', p3)"
    by (simp add: save_post_def commit_def r3)
  moreover have "restore_version um st u1 u2 usr pid vid = save_post st2 p3"
    using P V C by (simp add: restore_version_def case_prod_beta st2_def p3_def ms_def updateMeta_snd)
  ultimately show ?thesis by auto
qed

lemma createPostVersion_snapshot_of:
  "createPostVersion st u1 u2 p usr = Inr (st', v) \<Longrightarrow> snapshot_of p usr v"
  by (auto simp: snapshot_of_def comp_def dest!: createPostVersion_InrD)


lemma ex_store_findOne:
  "findOne (rows ex_store) 1 = Some ex_home" "findOne (rows ex_store) 2 = Some ex_home_version"
  "findOne (rows ex_store) 3 = None"
  by (simp_all add: ex_store_def findOne_def ex_home_def ex_home_version_def blank_post_def)

lemma ex_store_ok:
  "distinct (map post_id (rows ex_store))" "unique_paths (rows ex_store)"
  "''u-4'' \<notin> set (map slugPath (rows ex_store))"
  by (simp_all add: ex_store_def unique_paths_def ex_home_def ex_home_version_def blank_post_def)


lemma ex_store_version_query:
  "find (\<lambda>r. post_id r = 2 \<and> parent r = Some 1 \<and> ptype r = ''post_version'') (rows ex_store)
     = Some ex_home_version"
  by (simp add: ex_store_def ex_home_def ex_home_version_def blank_post_def)


section \<open>Restoring a version\<close>

text \<open>
  Claim C6. In a store whose ids are distinct and whose slug paths are unique, with a
  fresh path \<open>u2\<close> for the snapshot, restoring the version \<open>vid\<close> onto the post \<open>pid\<close>
  fails with \<^verbatim>\<open>invalid_post\<close> when \<open>pid\<close> does not resolve, and with
  \<^verbatim>\<open>invalid_post_version\<close> when \<open>vid\<close> does not resolve, when the parent of that row is
  not \<open>pid\<close> or when its type is not \<^verbatim>\<open>post_version\<close>. Otherwise it succeeds: its
  first write inserts a snapshot of the post as it was before the restore, its last
  write saves the post, and the saved post has the tags, the content and the name of
  the version.
\<close>

theorem restore_version_contract:
  assumes D: "distinct (map post_id (rows st))"
      and U: "unique_paths (rows st)"
      and F: "u2 \<notin> set (map slugPath (rows st))"
  shows
    "(findOne (rows st) pid = None \<longrightarrow>
        restore_version um st u1 u2 usr pid vid = Inl InvalidPost)
     \<and> (\<forall>p. findOne (rows st) pid = Some p \<longrightarrow>
          (findOne (rows st) vid = None \<longrightarrow>
             restore_version um st u1 u2 usr pid vid = Inl InvalidPostVersion)
          \<and> (\<forall>V. findOne (rows st) vid = Some V \<longrightarrow>
               (parent V \<noteq> Some pid \<or> ptype V \<noteq> ''post_version'' \<longrightarrow>
                  restore_version um st u1 u2 usr pid vid = Inl InvalidPostVersion)
               \<and> (parent V = Some pid \<and> ptype V = ''post_version'' \<longrightarrow>
                    (\<exists>st' p' v.
                        restore_version um st u1 u2 usr pid vid = Inr (st', p')
                        \<and> writes st' = writes st @ [Insert v, MetaUpdate pid, Save p']
                        \<and> snapshot_of p usr v
                        \<and> rows st' = map (\<lambda>r. if post_id r = pid then p' else r) (rows st) @ [v]
                        \<and> findOne (rows st') pid = Some p'
                        \<and> tags p' = tags V \<and> content p' = content V \<and> name p' = name V))))"
proof (intro conjI allI impI)
  assume "findOne (rows st) pid = None"
  then show "restore_version um st u1 u2 usr pid vid = Inl InvalidPost"
    by (simp add: restore_version_def)
next
  fix p assume "findOne (rows st) pid = Some p" "findOne (rows st) vid = None"
  then show "restore_version um st u1 u2 usr pid vid = Inl InvalidPostVersion"
    by (simp add: restore_version_def find_version_None)
next
  fix p V
  assume "findOne (rows st) pid = Some p" "findOne (rows st) vid = Some V"
    "parent V \<noteq> Some pid \<or> ptype V \<noteq> ''post_version''"
  then show "restore_version um st u1 u2 usr pid vid = Inl InvalidPostVersion"
    using find_version_eq_findOne [OF D, of vid V pid]
    by (auto simp: restore_version_def)
next
  fix p V
  assume P: "findOne (rows st) pid = Some p" and V: "findOne (rows st) vid = Some V"
    and ok: "parent V = Some pid \<and> ptype V = ''post_version''"
  from find_version_eq_findOne [OF D V, of pid] ok
  have V': "find (\<lambda>r. post_id r = vid \<and> parent r = Some pid \<and> ptype r = ''post_version'') (rows st) = Some V"
    by simp
  from restore_version_ok [OF P V' D U F] obtain st' p'
    where R: "restore_version um st u1 u2 usr pid vid = Inr (st', p')" by blast
  from restore_version_result [OF P V' R] obtain st1 v
    where C: "createPostVersion st u1 u2 p usr = Inr (st1, v)"
      and p': "p' = p\<lparr>meta := um p (meta V) None, tags := tags V, content := content V, name := name V\<rparr>"
      and rs: "rows st' = map (\<lambda>r. if post_id r = pid then p' else r) (rows st) @ [v]"
      and ws: "writes st' = writes st @ [Insert v, MetaUpdate pid, Save p']"
    by blast
  from findOne_SomeD [OF P] p' have "post_id p' = pid" by simp
  from findOne_replace [OF P this] rs have "findOne (rows st') pid = Some p'" by simp
  with R ws rs createPostVersion_snapshot_of [OF C] p'
  show "\<exists>st' p' v.
          restore_version um st u1 u2 usr pid vid = Inr (st', p')
          \<and> writes st' = writes st @ [Insert v, MetaUpdate pid, Save p']
          \<and> snapshot_of p usr v
          \<and> rows st' = map (\<lambda>r. if post_id r = pid then p' else r) (rows st) @ [v]
          \<and> findOne (rows st') pid = Some p'
          \<and> tags p' = tags V \<and> content p' = content V \<and> name p' = name V"
    by auto
qed


theorem restore_version_contract_witness:
  "distinct (map post_id (rows ex_store)) \<and> unique_paths (rows ex_store)
   \<and> restore_version replace_all_meta ex_store ''u-3'' ''u-4'' (Some 9) 3 2 = Inl InvalidPost
   \<and> restore_version replace_all_meta ex_store ''u-3'' ''u-4'' (Some 9) 1 3 = Inl InvalidPostVersion
   \<and> restore_version replace_all_meta ex_store ''u-3'' ''u-4'' (Some 9) 2 1 = Inl InvalidPostVersion
   \<and> (\<exists>st' p' v.
        restore_version replace_all_meta ex_store ''u-3'' ''u-4'' (Some 9) 1 2 = Inr (st', p')
        \<and> writes st' = [Insert v, MetaUpdate 1, Save p']
        \<and> name v = ''Home'' \<and> tags v = [4] \<and> parent v = Some 1 \<and> ptype v = ''post_version''
        \<and> findOne (rows st') 1 = Some p'
        \<and> name p' = ''Old home'' \<and> tags p' = [7] \<and> content p' = None)"
proof -
  note T = restore_version_contract [OF ex_store_ok, of _ replace_all_meta "''u-3''" "Some 9"]
  have a: "restore_version replace_all_meta ex_store ''u-3'' ''u-4'' (Some 9) 3 2 = Inl InvalidPost"
    using T [of 3 2] ex_store_findOne by simp
  have b: "restore_version replace_all_meta ex_store ''u-3'' ''u-4'' (Some 9) 1 3 = Inl InvalidPostVersion"
    using T [of 1 3] ex_store_findOne by simp
  have c: "restore_version replace_all_meta ex_store ''u-3'' ''u-4'' (Some 9) 2 1 = Inl InvalidPostVersion"
    using T [of 2 1] ex_store_findOne by (simp add: ex_home_def blank_post_def)
  have d: "\<exists>st' p' v.
        restore_version replace_all_meta ex_store ''u-3'' ''u-4'' (Some 9) 1 2 = Inr (st', p')
        \<and> writes st' = writes ex_store @ [Insert v, MetaUpdate 1, Save p']
        \<and> snapshot_of ex_home (Some 9) v
        \<and> rows st' = map (\<lambda>r. if post_id r = 1 then p' else r) (rows ex_store) @ [v]
        \<and> findOne (rows st') 1 = Some p'
        \<and> tags p' = tags ex_home_version \<and> content p' = content ex_home_version
        \<and> name p' = name ex_home_version"
    using T [of 1 2] ex_store_findOne by (simp add: ex_home_version_def blank_post_def)
  then obtain st' p' v where
    "restore_version replace_all_meta ex_store ''u-3'' ''u-4'' (Some 9) 1 2 = Inr (st', p')"
    "writes st' = writes ex_store @ [Insert v, MetaUpdate 1, Save p']"
    "snapshot_of ex_home (Some 9) v"
    "findOne (rows st') 1 = Some p'"
    "tags p' = tags ex_home_version" "content p' = content ex_home_version"
    "name p' = name ex_home_version"
    by blast
  then have "restore_version replace_all_meta ex_store ''u-3'' ''u-4'' (Some 9) 1 2 = Inr (st', p')
        \<and> writes st' = [Insert v, MetaUpdate 1, Save p']
        \<and> name v = ''Home'' \<and> tags v = [4] \<and> parent v = Some 1 \<and> ptype v = ''post_version''
        \<and> findOne (rows st') 1 = Some p'
        \<and> name p' = ''Old home'' \<and> tags p' = [7] \<and> content p' = None"
    by (simp add: snapshot_of_def ex_store_def ex_home_def ex_home_version_def blank_post_def)
  then have e: "\<exists>st' p' v.
        restore_version replace_all_meta ex_store ''u-3'' ''u-4'' (Some 9) 1 2 = Inr (st', p')
        \<and> writes st' = [Insert v, MetaUpdate 1, Save p']
        \<and> name v = ''Home'' \<and> tags v = [4] \<and> parent v = Some 1 \<and> ptype v = ''post_version''
        \<and> findOne (rows st') 1 = Some p'
        \<and> name p' = ''Old home'' \<and> tags p' = [7] \<and> content p' = None"
    by blast
  from ex_store_ok a b c e show ?thesis by simp
qed

text \<open>
  Claim C10. A successful restore leaves the slug, the slug path, the status, the type,
  the parent and the publish dates of the live post as they were, persists the post
  under its id, and leaves every other row of the table as it was.
\<close>

theorem restore_version_frame:
  assumes R: "restore_version um st u1 u2 usr pid vid = Inr (st', p')"
      and P: "findOne (rows st) pid = Some p"
  shows "findOne (rows st') pid = Some p'
         \<and> post_id p' = post_id p \<and> slug p' = slug p \<and> slugPath p' = slugPath p
         \<and> status p' = status p \<and> ptype p' = ptype p \<and> parent p' = parent p
         \<and> publishedAt p' = publishedAt p \<and> publishedFrom p' = publishedFrom p
         \<and> publishedUntil p' = publishedUntil p
         \<and> (\<forall>r \<in> set (rows st). post_id r \<noteq> pid \<longrightarrow> r \<in> set (rows st'))"
proof -
  from R P obtain V where
    V: "find (\<lambda>r. post_id r = vid \<and> parent r = Some pid \<and> ptype r = ''post_version'') (rows st) = Some V"
    by (auto simp: restore_version_def split: option.splits)
  from restore_version_result [OF P V R] obtain st1 v
    where p': "p' = p\<lparr>meta := um p (meta V) None, tags := tags V, content := content V, name := name V\<rparr>"
      and rs: "rows st' = map (\<lambda>r. if post_id r = pid then p' else r) (rows st) @ [v]"
    by blast
  from findOne_SomeD [OF P] p' have "post_id p' = pid" by simp
  from findOne_replace [OF P this] rs have "findOne (rows st') pid = Some p'" by simp
  moreover have "\<forall>r \<in> set (rows st). post_id r \<noteq> pid \<longrightarrow> r \<in> set (rows st')"
    unfolding rs by force
  ultimately show ?thesis using p' by simp
qed


theorem restore_version_frame_witness:
  "\<exists>st' p'. restore_version replace_all_meta ex_store ''u-3'' ''u-4'' (Some 9) 1 2 = Inr (st', p')
     \<and> findOne (rows ex_store) 1 = Some ex_home
     \<and> findOne (rows st') 1 = Some p'
     \<and> slug p' = ''home'' \<and> slugPath p' = ''home'' \<and> status p' = ''published''
     \<and> ptype p' = ''page'' \<and> parent p' = None \<and> publishedAt p' = Some 10
     \<and> publishedFrom p' = None \<and> publishedUntil p' = None
     \<and> ex_home_version \<in> set (rows st')"
proof -
  from restore_version_ok [OF ex_store_findOne(1) ex_store_version_query ex_store_ok]
  obtain st' p' where
    R: "restore_version replace_all_meta ex_store ''u-3'' ''u-4'' (Some 9) 1 2 = Inr (st', p')"
    by blast
  from restore_version_frame [OF R ex_store_findOne(1)]
  have "findOne (rows st') 1 = Some p'
     \<and> slug p' = ''home'' \<and> slugPath p' = ''home'' \<and> status p' = ''published''
     \<and> ptype p' = ''page'' \<and> parent p' = None \<and> publishedAt p' = Some 10
     \<and> publishedFrom p' = None \<and> publishedUntil p' = None
     \<and> ex_home_version \<in> set (rows st')"
    by (simp add: ex_store_def ex_home_def ex_home_version_def blank_post_def)
  with R ex_store_findOne(1) show ?thesis by blast
qed

section \<open>Facts about bulk publish\<close>

lemma publish_set_post_id [simp]: "post_id (publish_set now rq r) = post_id r"
  by (simp add: publish_set_def)

lemma publish_posts_InrD:
  "publish_posts fd st now rq = Inr (st', out) \<Longrightarrow>
     rows st' = map (\<lambda>r. if post_id r \<in> set (publish_targets fd (rows st) rq)
                         then publish_set now rq r else r) (rows st)
     \<and> writes st' = writes st @ [BulkUpdate (publish_targets fd (rows st) rq)]
     \<and> out = findByIds (rows st') (req_ids rq)"
  by (auto simp: publish_posts_def Let_def split: if_splits)


lemma ex_store_resolved:
  "findByIds (rows ex_store) [2] = [ex_home_version]" "findByIds (rows ex_store) [3] = []"
  by (simp_all add: findByIds_def ex_store_def ex_home_def ex_home_version_def blank_post_def)

lemma two_rows:
  "map post_id rs = [a, b] \<Longrightarrow> \<exists>x y. rs = [x, y] \<and> post_id x = a \<and> post_id y = b"
  by (auto simp: map_eq_Cons_conv)


lemma descends_self: "post_id r = root \<Longrightarrow> descends n rs root r"
  by (cases n) simp_all

lemma child_descends:
  assumes "v \<in> set rs" and "parent v = Some (post_id p)" and "p \<in> set rs"
  shows "descends (length rs) rs (post_id p) v"
proof -
  from assms(1) obtain n where n: "length rs = Suc n" by (cases rs) auto
  from assms(3) obtain pr where pr: "findOne rs (post_id p) = Some pr"
    by (cases "findOne rs (post_id p)") (auto simp: findOne_None_iff)
  from findOne_SomeD [OF pr] have "post_id pr = post_id p" by simp
  then have "descends n rs (post_id p) pr" by (rule descends_self)
  with assms(2) pr show ?thesis by (simp add: n)
qed

lemma findByIds_subset: "p \<in> set (findByIds rs ids) \<Longrightarrow> p \<in> set rs"
  by (simp add: findByIds_def)


lemma publish_posts_ok:
  "findByIds (rows st) (req_ids rq) \<noteq> [] \<Longrightarrow> \<exists>st' out. publish_posts fd st now rq = Inr (st', out)"
  by (simp add: publish_posts_def Let_def)

lemma ex_store_resolved_home: "findByIds (rows ex_store) [1] = [ex_home]"
  by (simp add: findByIds_def ex_store_def ex_home_def ex_home_version_def blank_post_def)


section \<open>Bulk publish and unpublish: the contract\<close>

text \<open>
  Claim C9. A bulk publish whose ids resolve to no post fails with \<^verbatim>\<open>invalid_ids\<close>.
  Otherwise it succeeds: every row whose id is in the target set (the resolved posts,
  or with \<^verbatim>\<open>recursive\<close> the descendants found for them) has \<^verbatim>\<open>updatedAt = now\<close> and,
  for a publish, the status \<^verbatim>\<open>published\<close>, \<^verbatim>\<open>publishedAt = now\<close> and the window of the
  request, for an unpublish the status \<^verbatim>\<open>draft\<close> and no publish dates; the posts
  returned are those read again by the requested ids.
\<close>

theorem publish_posts_contract:
  "(findByIds (rows st) (req_ids rq) = [] \<longrightarrow> publish_posts fd st now rq = Inl InvalidIds)
   \<and> (findByIds (rows st) (req_ids rq) \<noteq> [] \<longrightarrow>
        (\<exists>st' out.
           publish_posts fd st now rq = Inr (st', out)
           \<and> out = findByIds (rows st') (req_ids rq)
           \<and> map post_id (rows st') = map post_id (rows st)
           \<and> (\<forall>r' \<in> set (rows st').
                 post_id r' \<in> set (publish_targets fd (rows st) rq) \<longrightarrow>
                   updatedAt r' = Some now
                   \<and> (if req_publish rq
                       then status r' = ''published'' \<and> publishedAt r' = Some now
                            \<and> publishedFrom r' = req_from rq \<and> publishedUntil r' = req_until rq
                       else status r' = ''draft'' \<and> publishedAt r' = None
                            \<and> publishedFrom r' = None \<and> publishedUntil r' = None))
           \<and> set (publish_targets fd (rows st) rq) =
               (if req_recursive rq
                then (\<Union>p \<in> set (findByIds (rows st) (req_ids rq)). post_id ` set (fd (rows st) p))
                else post_id ` set (findByIds (rows st) (req_ids rq)))))"
proof (intro conjI impI)
  assume "findByIds (rows st) (req_ids rq) = []"
  then show "publish_posts fd st now rq = Inl InvalidIds"
    by (simp add: publish_posts_def)
next
  assume ne: "findByIds (rows st) (req_ids rq) \<noteq> []"
  define tg where "tg = publish_targets fd (rows st) rq"
  define rs where "rs = map (\<lambda>r. if post_id r \<in> set tg then publish_set now rq r else r) (rows st)"
  define st' where "st' = st\<lparr>rows := rs, writes := writes st @ [BulkUpdate tg]\<rparr>"
  have R: "publish_posts fd st now rq = Inr (st', findByIds (rows st') (req_ids rq))"
    using ne by (simp add: publish_posts_def Let_def st'_def rs_def tg_def)
  have ids: "map post_id (rows st') = map post_id (rows st)"
    by (simp add: st'_def rs_def comp_def cong: if_cong)
  have fields: "\<forall>r' \<in> set (rows st'). post_id r' \<in> set tg \<longrightarrow>
                   updatedAt r' = Some now
                   \<and> (if req_publish rq
                       then status r' = ''published'' \<and> publishedAt r' = Some now
                            \<and> publishedFrom r' = req_from rq \<and> publishedUntil r' = req_until rq
                       else status r' = ''draft'' \<and> publishedAt r' = None
                            \<and> publishedFrom r' = None \<and> publishedUntil r' = None)"
    by (auto simp: st'_def rs_def publish_set_def split: if_splits)
  have tgs: "set tg =
               (if req_recursive rq
                then (\<Union>p \<in> set (findByIds (rows st) (req_ids rq)). post_id ` set (fd (rows st) p))
                else post_id ` set (findByIds (rows st) (req_ids rq)))"
    by (auto simp: tg_def publish_targets_def Let_def)
  from R ids fields tgs
  show "\<exists>st' out.
           publish_posts fd st now rq = Inr (st', out)
           \<and> out = findByIds (rows st') (req_ids rq)
           \<and> map post_id (rows st') = map post_id (rows st)
           \<and> (\<forall>r' \<in> set (rows st').
                 post_id r' \<in> set (publish_targets fd (rows st) rq) \<longrightarrow>
                   updatedAt r' = Some now
                   \<and> (if req_publish rq
                       then status r' = ''published'' \<and> publishedAt r' = Some now
                            \<and> publishedFrom r' = req_from rq \<and> publishedUntil r' = req_until rq
                       else status r' = ''draft'' \<and> publishedAt r' = None
                            \<and> publishedFrom r' = None \<and> publishedUntil r' = None))
           \<and> set (publish_targets fd (rows st) rq) =
               (if req_recursive rq
                then (\<Union>p \<in> set (findByIds (rows st) (req_ids rq)). post_id ` set (fd (rows st) p))
                else post_id ` set (findByIds (rows st) (req_ids rq)))"
    unfolding tg_def by blast
qed


theorem publish_posts_contract_witness:
  "publish_posts findDescendants ex_store 50 (ex_publish False [3]) = Inl InvalidIds
   \<and> (\<exists>st' out. publish_posts findDescendants ex_store 50 (ex_publish False [2]) = Inr (st', out)
         \<and> map post_id out = [2] \<and> map status out = [''published'']
         \<and> map publishedAt out = [Some 50] \<and> map publishedFrom out = [Some 60]
         \<and> map publishedUntil out = [None] \<and> map updatedAt out = [Some 50])
   \<and> (\<exists>st' out. publish_posts findDescendants ex_store 50 (ex_unpublish [1]) = Inr (st', out)
         \<and> map post_id out = [1] \<and> map status out = [''draft'']
         \<and> map publishedAt out = [None] \<and> map publishedFrom out = [None]
         \<and> map publishedUntil out = [None] \<and> map updatedAt out = [Some 50])"
proof -
  note T = publish_posts_contract [of ex_store _ findDescendants 50]
  have a: "publish_posts findDescendants ex_store 50 (ex_publish False [3]) = Inl InvalidIds"
    using T [of "ex_publish False [3]"] ex_store_resolved by (simp add: ex_publish_def)
  from T [of "ex_publish False [2]"] ex_store_resolved
  obtain st' out where
    R: "publish_posts findDescendants ex_store 50 (ex_publish False [2]) = Inr (st', out)"
    and out: "out = findByIds (rows st') [2]"
    and ids: "map post_id (rows st') = [1, 2]"
    and fields: "\<forall>r' \<in> set (rows st'). post_id r' = 2 \<longrightarrow>
                   updatedAt r' = Some 50 \<and> status r' = ''published'' \<and> publishedAt r' = Some 50
                   \<and> publishedFrom r' = Some 60 \<and> publishedUntil r' = None"
    by (auto simp: ex_publish_def ex_store_def ex_home_def ex_home_version_def blank_post_def)
  from two_rows [OF ids] obtain x y where xy: "rows st' = [x, y]" "post_id x = 1" "post_id y = 2"
    by blast
  with out have "out = [y]" by (simp add: findByIds_def)
  with fields xy R have
    "publish_posts findDescendants ex_store 50 (ex_publish False [2]) = Inr (st', out)
         \<and> map post_id out = [2] \<and> map status out = [''published'']
         \<and> map publishedAt out = [Some 50] \<and> map publishedFrom out = [Some 60]
         \<and> map publishedUntil out = [None] \<and> map updatedAt out = [Some 50]"
    by simp
  then have b: "\<exists>st' out. publish_posts findDescendants ex_store 50 (ex_publish False [2]) = Inr (st', out)
         \<and> map post_id out = [2] \<and> map status out = [''published'']
         \<and> map publishedAt out = [Some 50] \<and> map publishedFrom out = [Some 60]
         \<and> map publishedUntil out = [None] \<and> map updatedAt out = [Some 50]"
    by (intro exI)
  from T [of "ex_unpublish [1]"] ex_store_resolved_home
  obtain st2 out2 where
    R2: "publish_posts findDescendants ex_store 50 (ex_unpublish [1]) = Inr (st2, out2)"
    and out2: "out2 = findByIds (rows st2) [1]"
    and ids2: "map post_id (rows st2) = [1, 2]"
    and fields2: "\<forall>r' \<in> set (rows st2). post_id r' = 1 \<longrightarrow>
                   updatedAt r' = Some 50 \<and> status r' = ''draft'' \<and> publishedAt r' = None
                   \<and> publishedFrom r' = None \<and> publishedUntil r' = None"
    by (auto simp: ex_unpublish_def ex_store_def ex_home_def ex_home_version_def blank_post_def)
  from two_rows [OF ids2] obtain x2 y2
    where xy2: "rows st2 = [x2, y2]" "post_id x2 = 1" "post_id y2 = 2"
    by blast
  with out2 have "out2 = [x2]" by (simp add: findByIds_def)
  with fields2 xy2 R2 have
    "publish_posts findDescendants ex_store 50 (ex_unpublish [1]) = Inr (st2, out2)
         \<and> map post_id out2 = [1] \<and> map status out2 = [''draft'']
         \<and> map publishedAt out2 = [None] \<and> map publishedFrom out2 = [None]
         \<and> map publishedUntil out2 = [None] \<and> map updatedAt out2 = [Some 50]"
    by simp
  then have c: "\<exists>st' out. publish_posts findDescendants ex_store 50 (ex_unpublish [1]) = Inr (st', out)
         \<and> map post_id out = [1] \<and> map status out = [''draft'']
         \<and> map publishedAt out = [None] \<and> map publishedFrom out = [None]
         \<and> map publishedUntil out = [None] \<and> map updatedAt out = [Some 50]"
    by (intro exI)
  from a b c show ?thesis by (intro conjI)
qed

text \<open>
  Claim C4, as the code has it. A bulk publish applies no filter on the type: a row
  outside the target set is left as it is, a row inside it keeps its type and gets the
  status of the request, and with \<^verbatim>\<open>recursive\<close> and the parent tree as descendant
  relation the target set holds every row whose parent is a resolved post, so the
  \<^verbatim>\<open>post_version\<close> snapshots of a published post are published with it.
\<close>

theorem publish_posts_no_type_filter:
  assumes R: "publish_posts fd st now rq = Inr (st', out)"
  shows "length (rows st') = length (rows st)
     \<and> (\<forall>i < length (rows st).
           (post_id (rows st ! i) \<notin> set (publish_targets fd (rows st) rq) \<longrightarrow>
              rows st' ! i = rows st ! i)
         \<and> (post_id (rows st ! i) \<in> set (publish_targets fd (rows st) rq) \<longrightarrow>
              ptype (rows st' ! i) = ptype (rows st ! i)
              \<and> status (rows st' ! i) = (if req_publish rq then ''published'' else ''draft'')))
     \<and> (\<forall>p \<in> set (findByIds (rows st) (req_ids rq)). \<forall>v \<in> set (rows st).
           req_recursive rq \<and> parent v = Some (post_id p) \<longrightarrow>
             post_id v \<in> set (publish_targets findDescendants (rows st) rq))"
proof (intro conjI ballI allI impI)
  note r = publish_posts_InrD [OF R]
  show "length (rows st') = length (rows st)" using r by simp
  fix i assume i: "i < length (rows st)"
  { assume "post_id (rows st ! i) \<notin> set (publish_targets fd (rows st) rq)"
    with r i show "rows st' ! i = rows st ! i" by simp }
  { assume t: "post_id (rows st ! i) \<in> set (publish_targets fd (rows st) rq)"
    with r i show "ptype (rows st' ! i) = ptype (rows st ! i)"
      by (simp add: publish_set_def)
    from t r i show "status (rows st' ! i) = (if req_publish rq then ''published'' else ''draft'')"
      by (simp add: publish_set_def) }
next
  fix p v
  assume p: "p \<in> set (findByIds (rows st) (req_ids rq))" and v: "v \<in> set (rows st)"
    and h: "req_recursive rq \<and> parent v = Some (post_id p)"
  from child_descends [OF v _ findByIds_subset [OF p]] h
  have "v \<in> set (findDescendants (rows st) p)"
    using v by (simp add: findDescendants_def)
  with p h show "post_id v \<in> set (publish_targets findDescendants (rows st) rq)"
    by (auto simp: publish_targets_def Let_def)
qed


theorem publish_posts_no_type_filter_witness:
  "\<exists>st' out. publish_posts findDescendants ex_store 50 (ex_publish True [1]) = Inr (st', out)
     \<and> ptype (rows ex_store ! 1) = ''post_version'' \<and> status (rows ex_store ! 1) = ''draft''
     \<and> 2 \<in> set (publish_targets findDescendants (rows ex_store) (ex_publish True [1]))
     \<and> ptype (rows st' ! 1) = ''post_version'' \<and> status (rows st' ! 1) = ''published''"
proof -
  have res: "findByIds (rows ex_store) (req_ids (ex_publish True [1])) = [ex_home]"
    unfolding ex_publish_def using ex_store_resolved_home by simp
  then have "findByIds (rows ex_store) (req_ids (ex_publish True [1])) \<noteq> []" by simp
  from publish_posts_ok [OF this]
  obtain st' out where
    R: "publish_posts findDescendants ex_store 50 (ex_publish True [1]) = Inr (st', out)"
    by blast
  note T = publish_posts_no_type_filter [OF R]
  have ex: "ptype (rows ex_store ! 1) = ''post_version''" "status (rows ex_store ! 1) = ''draft''"
    "post_id (rows ex_store ! 1) = 2" "length (rows ex_store) = 2"
    by (simp_all add: ex_store_def ex_home_version_def blank_post_def)
  have v: "ex_home_version \<in> set (rows ex_store)"
    "req_recursive (ex_publish True [1]) \<and> parent ex_home_version = Some (post_id ex_home)"
    "post_id ex_home_version = 2"
    by (simp_all add: ex_publish_def ex_store_def ex_home_def ex_home_version_def blank_post_def)
  have "ex_home \<in> set (findByIds (rows ex_store) (req_ids (ex_publish True [1])))"
    unfolding res by simp
  from T [THEN conjunct2, THEN conjunct2, rule_format, OF this v(1) v(2)] v(3)
  have tg: "2 \<in> set (publish_targets findDescendants (rows ex_store) (ex_publish True [1]))"
    by simp
  from T [THEN conjunct2, THEN conjunct1, rule_format, of 1] ex tg
  have q: "ptype (rows st' ! 1) = ''post_version''" "status (rows st' ! 1) = ''published''"
    by (simp_all add: ex_publish_def)
  from R ex(1) ex(2) tg q show ?thesis by (intro exI conjI)
qed

text \<open>
  Claim C4 as stated fails: publishing the page of the example store with
  \<^verbatim>\<open>recursive\<close> sets its \<^verbatim>\<open>post_version\<close> row, a draft before, to \<^verbatim>\<open>published\<close>; so does
  a publish that names the version row by its id, with the descendants taken by path
  or without \<^verbatim>\<open>recursive\<close>.
\<close>

theorem publish_reaches_versions:
  "map ptype (rows (fst (projr (publish_posts findDescendants ex_store 50 (ex_publish True [1])))))
     = [''page'', ''post_version'']
   \<and> map status (rows (fst (projr (publish_posts findDescendants ex_store 50 (ex_publish True [1])))))
     = [''published'', ''published'']
   \<and> map status (rows (fst (projr (publish_posts findDescendants_by_path ex_store 50 (ex_publish True [2])))))
     = [''published'', ''published'']
   \<and> map status (rows (fst (projr (publish_posts findDescendants ex_store 50 (ex_publish False [2])))))
     = [''published'', ''published'']
   \<and> map status (rows ex_store) = [''published'', ''draft'']"
  by (simp add: publish_posts_def publish_targets_def findDescendants_def
      findDescendants_by_path_def in_subtree_def starts_with_def findByIds_def findOne_def
      publish_set_def ex_publish_def ex_store_def ex_home_def ex_home_version_def
      blank_post_def Let_def)

section \<open>Facts about the edit handlers\<close>

lemma snapshot_firstI:
  "writes st' = writes st @ Insert v # ws \<Longrightarrow> snapshot_of p usr v \<Longrightarrow>
   list_all (\<lambda>w. \<not> is_insert w) ws \<Longrightarrow> post_id v \<notin> set (map post_id (rows st)) \<Longrightarrow>
   map post_id (rows st') = map post_id (rows st) @ [post_id v] \<Longrightarrow>
   snapshot_first st st' p usr"
  by (simp add: snapshot_first_def)

lemma catch_23505_InrD: "catch_23505 r = Inr x \<Longrightarrow> r = Inr x"
  by (auto simp: catch_23505_def split: sum.splits if_splits)

lemma replaceChildren_InrD:
  "replaceChildren st old new = Inr st' \<Longrightarrow>
     rows st' = map (\<lambda>r. r\<lparr>slugPath := replace_prefix old new (slugPath r)\<rparr>) (rows st) \<and>
     writes st' = writes st @ [ReplaceChildren old new] \<and> unique_paths (rows st')"
  by (auto simp: replaceChildren_def dest!: commit_InrD)

lemma fresh_id_notin: "fresh_id rs \<notin> set (map post_id rs)"
proof
  assume "fresh_id rs \<in> set (map post_id rs)"
  then obtain r where "r \<in> set rs" "post_id r = fresh_id rs" by auto
  with fresh_id_gt [of r rs] show False by simp
qed

lemma update_post_InrD:
  assumes P: "findOne (rows st) pid = Some p"
      and R: "update_post st tt now u1 u2 usr pid rq = Inr (st', p')"
  shows "\<exists>st1 v. createPostVersion st u1 u2 p usr = Inr (st1, v) \<and> post_id p' = pid \<and>
           ptype p \<noteq> ''post_version'' \<and>
           (if truthy_str (req_slug rq)
            then slug p' = the (req_slug rq) \<and>
                 slugPath p' = newSlugPath (rows st) p (the (req_slug rq)) \<and>
                 writes st' = writes st @ [Insert v,
                    ReplaceChildren (slugPath p) (newSlugPath (rows st) p (the (req_slug rq))),
                    Save p'] \<and>
                 rows st' = map (\<lambda>r. if post_id r = pid then p' else r)
                   (map (\<lambda>r. r\<lparr>slugPath := replace_prefix (slugPath p)
                            (newSlugPath (rows st) p (the (req_slug rq))) (slugPath r)\<rparr>)
                      (rows st @ [v]))
            else slug p' = slug p \<and> slugPath p' = slugPath p \<and>
                 writes st' = writes st @ [Insert v, Save p'] \<and>
                 rows st' = map (\<lambda>r. if post_id r = pid then p' else r) (rows st @ [v]))"
proof -
  from findOne_SomeD [OF P] have pid: "post_id p = pid" by simp
  from catch_23505_InrD [OF R [unfolded update_post_def]] P
  have nv: "ptype p \<noteq> ''post_version''"
    by (auto split: if_splits)
  with catch_23505_InrD [OF R [unfolded update_post_def]] P
  obtain st1 v where C: "createPostVersion st u1 u2 p usr = Inr (st1, v)"
    by (auto split: sum.splits)
  note cv = createPostVersion_InrD [OF C]
  define fin where "fin = (\<lambda>p2::post.
     (let p3 = (if truthy_str (req_name rq) then p2\<lparr>name := the (req_name rq)\<rparr> else p2);
          p4 = (case req_tags rq of None \<Rightarrow> p3
                | Some ts \<Rightarrow> p3\<lparr>tags := filter (\<lambda>t. t \<in> set (map the (filter truthy_id ts))) tt\<rparr>)
      in p4\<lparr>updatedAt := Some now\<rparr>))"
  have fin_keep: "\<And>q. post_id (fin q) = post_id q \<and> slug (fin q) = slug q \<and> slugPath (fin q) = slugPath q"
    by (simp add: fin_def Let_def split: option.splits)
  show ?thesis
  proof (cases "truthy_str (req_slug rq)")
    case True
    define new where "new = newSlugPath (rows st) p (the (req_slug rq))"
    from catch_23505_InrD [OF R [unfolded update_post_def]] P nv C True
    obtain st2 where RC: "replaceChildren st1 (slugPath p) new = Inr st2"
      and S: "save_post st2 (fin (p\<lparr>slug := the (req_slug rq), slugPath := new\<rparr>)) = Inr (st', p')"
      by (auto simp: Let_def new_def fin_def split: sum.splits)
    note rc = replaceChildren_InrD [OF RC]
    note sv = save_post_InrD [OF S]
    from sv fin_keep pid have a: "post_id p' = pid" "slug p' = the (req_slug rq)" "slugPath p' = new"
      by simp_all
    from sv rc cv a have "writes st' = writes st @ [Insert v, ReplaceChildren (slugPath p) new, Save p']"
      by simp
    moreover from sv rc cv a have "rows st' = map (\<lambda>r. if post_id r = pid then p' else r)
                   (map (\<lambda>r. r\<lparr>slugPath := replace_prefix (slugPath p) new (slugPath r)\<rparr>)
                      (rows st @ [v]))"
      by simp
    ultimately show ?thesis using C a nv True unfolding new_def by simp
  next
    case False
    from catch_23505_InrD [OF R [unfolded update_post_def]] P nv C False
    have S: "save_post st1 (fin p) = Inr (st', p')"
      by (auto simp: Let_def fin_def split: sum.splits)
    note sv = save_post_InrD [OF S]
    from sv fin_keep pid have a: "post_id p' = pid" "slug p' = slug p" "slugPath p' = slugPath p"
      by simp_all
    from sv cv a have "writes st' = writes st @ [Insert v, Save p']" by simp
    moreover from sv cv a have "rows st' = map (\<lambda>r. if post_id r = pid then p' else r) (rows st @ [v])"
      by simp
    ultimately show ?thesis using C a nv False by simp
  qed
qed

lemma ex_tree_rename_ok:
  "\<exists>st' p'. update_post ex_tree [] 70 ''u-1'' ''u-2'' (Some 9) 1 (ex_rename ''z'') = Inr (st', p')"
  by (simp add: update_post_def catch_23505_def createPostVersion_def insert_post_def commit_def
      replaceChildren_def save_post_def unique_paths_def replace_prefix_def in_subtree_def
      starts_with_def newSlugPath_def truthy_str_def fresh_id_def findOne_def ex_tree_def
      ex_rename_def blank_post_def Let_def)

lemma ex_tree_rename_sub_ok:
  "\<exists>st' p'. update_post ex_tree [] 70 ''u-1'' ''u-2'' (Some 9) 2 (ex_rename ''y'') = Inr (st', p')"
  by (simp add: update_post_def catch_23505_def createPostVersion_def insert_post_def commit_def
      replaceChildren_def save_post_def unique_paths_def replace_prefix_def in_subtree_def
      starts_with_def newSlugPath_def truthy_str_def fresh_id_def findOne_def ex_tree_def
      ex_rename_def blank_post_def Let_def)

lemma findOne_map_keep_id:
  "(\<And>r. post_id (f r) = post_id r) \<Longrightarrow> findOne (map f rs) i = map_option f (findOne rs i)"
  by (induction rs) (auto simp: findOne_def)

lemma map_post_id_replace:
  "post_id q = i \<Longrightarrow> map post_id (map (\<lambda>r. if post_id r = i then q else r) rs) = map post_id rs"
  by (induction rs) auto

lemma update_content_InrD:
  assumes P: "findOne (rows st) pid = Some p"
      and R: "update_content um st now u1 u2 usr pid flat = Inr (st', p')"
  shows "\<exists>st1 v. createPostVersion st u1 u2 p usr = Inr (st1, v) \<and> post_id p' = pid \<and>
           writes st' = writes st @ [Insert v, MetaUpdate pid, Save p'] \<and>
           rows st' = map (\<lambda>r. if post_id r = pid then p' else r) (rows st) @ [v]"
proof -
  from findOne_SomeD [OF P] have pin: "p \<in> set (rows st)" and pid: "post_id p = pid" by auto
  from catch_23505_InrD [OF R [unfolded update_content_def]] P
  obtain st1 v where C: "createPostVersion st u1 u2 p usr = Inr (st1, v)"
    by (auto split: sum.splits)
  note cv = createPostVersion_InrD [OF C]
  from fresh_id_gt [OF pin] cv pid have vne: "post_id v \<noteq> pid" by simp
  define metas where
    "metas = map (\<lambda>(k, x). \<lparr>meta_id = None, mkey = ''content.'' @ k, mvalue = x\<rparr>) flat"
  define ms where "ms = um p metas (Some ''^content'')"
  define st2 where "st2 = fst (updateMeta um st1 p metas (Some ''^content''))"
  define p3 where "p3 = p\<lparr>meta := ms, author := usr, updatedAt := Some now\<rparr>"
  from catch_23505_InrD [OF R [unfolded update_content_def]] P C
  have S: "save_post st2 p3 = Inr (st', p')"
    by (simp add: case_prod_beta st2_def p3_def ms_def metas_def updateMeta_snd)
  note sv = save_post_InrD [OF S]
  have p3id: "post_id p3 = pid" using pid by (simp add: p3_def)
  have r2: "rows st2 = map (\<lambda>r. if post_id r = pid then r\<lparr>meta := ms\<rparr> else r) (rows st) @ [v]"
    using cv vne pid by (simp add: st2_def updateMeta_fst_rows ms_def)
  have r3: "map (\<lambda>r. if post_id r = post_id p3 then p3 else r) (rows st2) =
            map (\<lambda>r. if post_id r = pid then p3 else r) (rows st) @ [v]"
    unfolding r2 p3id using vne replace_after_meta [of pid p3 ms "rows st"] by simp
  have w2: "writes st2 = writes st @ [Insert v, MetaUpdate pid]"
    using cv pid by (simp add: st2_def updateMeta_fst_writes)
  from sv r3 w2 p3id C show ?thesis by auto
qed

lemma snapshot_first_restore:
  assumes P: "findOne (rows st) pid = Some p"
      and R: "restore_version um st u1 u2 usr pid vid = Inr (st', p')"
  shows "snapshot_first st st' p usr"
proof -
  from R P obtain V where
    V: "find (\<lambda>r. post_id r = vid \<and> parent r = Some pid \<and> ptype r = ''post_version'') (rows st) = Some V"
    by (auto simp: restore_version_def split: option.splits)
  from restore_version_result [OF P V R] obtain st1 v
    where C: "createPostVersion st u1 u2 p usr = Inr (st1, v)"
      and p': "p' = p\<lparr>meta := um p (meta V) None, tags := tags V, content := content V, name := name V\<rparr>"
      and rs: "rows st' = map (\<lambda>r. if post_id r = pid then p' else r) (rows st) @ [v]"
      and ws: "writes st' = writes st @ [Insert v, MetaUpdate pid, Save p']"
    by blast
  from findOne_SomeD [OF P] p' have id: "post_id p' = pid" by simp
  show ?thesis
  proof (rule snapshot_firstI [where v = v and ws = "[MetaUpdate pid, Save p']"])
    show "writes st' = writes st @ [Insert v, MetaUpdate pid, Save p']" by (rule ws)
    show "snapshot_of p usr v" by (rule createPostVersion_snapshot_of [OF C])
    show "list_all (\<lambda>w. \<not> is_insert w) [MetaUpdate pid, Save p']" by simp
    show "post_id v \<notin> set (map post_id (rows st))"
      using createPostVersion_InrD [OF C] fresh_id_notin [of "rows st"] by simp
    show "map post_id (rows st') = map post_id (rows st) @ [post_id v]"
      unfolding rs using map_post_id_replace [OF id] by simp
  qed
qed

lemma snapshot_first_content:
  assumes P: "findOne (rows st) pid = Some p"
      and R: "update_content um st now u1 u2 usr pid flat = Inr (st', p')"
  shows "snapshot_first st st' p usr"
proof -
  from update_content_InrD [OF P R] obtain st1 v
    where C: "createPostVersion st u1 u2 p usr = Inr (st1, v)"
      and id: "post_id p' = pid"
      and ws: "writes st' = writes st @ [Insert v, MetaUpdate pid, Save p']"
      and rs: "rows st' = map (\<lambda>r. if post_id r = pid then p' else r) (rows st) @ [v]"
    by blast
  show ?thesis
  proof (rule snapshot_firstI [where v = v and ws = "[MetaUpdate pid, Save p']"])
    show "writes st' = writes st @ [Insert v, MetaUpdate pid, Save p']" by (rule ws)
    show "snapshot_of p usr v" by (rule createPostVersion_snapshot_of [OF C])
    show "list_all (\<lambda>w. \<not> is_insert w) [MetaUpdate pid, Save p']" by simp
    show "post_id v \<notin> set (map post_id (rows st))"
      using createPostVersion_InrD [OF C] fresh_id_notin [of "rows st"] by simp
    show "map post_id (rows st') = map post_id (rows st) @ [post_id v]"
      unfolding rs using map_post_id_replace [OF id] by simp
  qed
qed

lemma snapshot_first_update:
  assumes P: "findOne (rows st) pid = Some p"
      and R: "update_post st tt now u1 u2 usr pid rq = Inr (st', p')"
  shows "snapshot_first st st' p usr"
proof -
  from update_post_InrD [OF P R] obtain st1 v
    where C: "createPostVersion st u1 u2 p usr = Inr (st1, v)"
      and id: "post_id p' = pid"
      and rest: "if truthy_str (req_slug rq)
            then writes st' = writes st @ [Insert v,
                    ReplaceChildren (slugPath p) (newSlugPath (rows st) p (the (req_slug rq))),
                    Save p'] \<and>
                 rows st' = map (\<lambda>r. if post_id r = pid then p' else r)
                   (map (\<lambda>r. r\<lparr>slugPath := replace_prefix (slugPath p)
                            (newSlugPath (rows st) p (the (req_slug rq))) (slugPath r)\<rparr>)
                      (rows st @ [v]))
            else writes st' = writes st @ [Insert v, Save p'] \<and>
                 rows st' = map (\<lambda>r. if post_id r = pid then p' else r) (rows st @ [v])"
    by (auto split: if_splits)
  note cv = createPostVersion_InrD [OF C]
  have fresh: "post_id v \<notin> set (map post_id (rows st))"
    using cv fresh_id_notin [of "rows st"] by simp
  have snap: "snapshot_of p usr v" by (rule createPostVersion_snapshot_of [OF C])
  show ?thesis
  proof (cases "truthy_str (req_slug rq)")
    case True
    define new where "new = newSlugPath (rows st) p (the (req_slug rq))"
    from True rest have ws: "writes st' = writes st @ [Insert v, ReplaceChildren (slugPath p) new, Save p']"
      and rs: "rows st' = map (\<lambda>r. if post_id r = pid then p' else r)
                   (map (\<lambda>r. r\<lparr>slugPath := replace_prefix (slugPath p) new (slugPath r)\<rparr>)
                      (rows st @ [v]))"
      by (simp_all add: new_def)
    have "map post_id (rows st') =
          map post_id (map (\<lambda>r. r\<lparr>slugPath := replace_prefix (slugPath p) new (slugPath r)\<rparr>) (rows st @ [v]))"
      unfolding rs by (rule map_post_id_replace [OF id])
    also have "\<dots> = map post_id (rows st) @ [post_id v]" by (simp add: comp_def)
    finally have ids: "map post_id (rows st') = map post_id (rows st) @ [post_id v]" .
    show ?thesis
      by (rule snapshot_firstI [where v = v and ws = "[ReplaceChildren (slugPath p) new, Save p']"])
         (use ws snap fresh ids in simp_all)
  next
    case False
    from False rest have ws: "writes st' = writes st @ [Insert v, Save p']"
      and rs: "rows st' = map (\<lambda>r. if post_id r = pid then p' else r) (rows st @ [v])"
      by simp_all
    have "map post_id (rows st') = map post_id (rows st @ [v])"
      unfolding rs by (rule map_post_id_replace [OF id])
    then have ids: "map post_id (rows st') = map post_id (rows st) @ [post_id v]" by simp
    show ?thesis
      by (rule snapshot_firstI [where v = v and ws = "[Save p']"])
         (use ws snap fresh ids in simp_all)
  qed
qed


lemma ex_tree_findOne: "findOne (rows ex_tree) 1 = Some (rows ex_tree ! 0)"
  by (simp add: ex_tree_def findOne_def blank_post_def)


lemma ex_store_content_ok:
  "\<exists>st' p'. update_content replace_all_meta ex_store 70 ''u-3'' ''u-4'' (Some 9) 1
              [(''title'', ''x'')] = Inr (st', p')"
  by (simp add: update_content_def catch_23505_def createPostVersion_def insert_post_def
      commit_def save_post_def updateMeta_def unique_paths_def fresh_id_def findOne_def
      replace_all_meta_def ex_store_def ex_home_def ex_home_version_def blank_post_def Let_def)

lemma ex_store_update_ok:
  "\<exists>st' p'. update_post ex_store [4, 7] 70 ''u-3'' ''u-4'' (Some 9) 1
              \<lparr>req_slug = Some ''start'', req_name = Some ''Start'', req_tags = Some [Some 7, None]\<rparr>
            = Inr (st', p')"
  by (simp add: update_post_def catch_23505_def createPostVersion_def insert_post_def commit_def
      replaceChildren_def save_post_def unique_paths_def replace_prefix_def in_subtree_def
      starts_with_def newSlugPath_def truthy_str_def truthy_id_def fresh_id_def findOne_def
      ex_store_def ex_home_def ex_home_version_def blank_post_def Let_def)


section \<open>Snapshots before edits\<close>

text \<open>
  Claim C7. For a post \<open>p\<close> that resolves, every successful content update, every
  successful update of slug, name and tags, and every successful restore first inserts
  exactly one row, a \<^verbatim>\<open>post_version\<close> whose parent is \<open>p\<close> and that carries the name, the
  meta keys and values, the tags and the content type \<open>p\<close> had before the edit; no
  later write of the edit inserts a row. Taking the snapshot appends that row and
  leaves every existing row, the source post included, as it was.
\<close>

theorem snapshot_before_every_edit:
  assumes P: "findOne (rows st) pid = Some p"
  shows "(\<forall>st' p'. update_content um st now u1 u2 usr pid flat = Inr (st', p') \<longrightarrow>
            snapshot_first st st' p usr)
       \<and> (\<forall>st' p'. update_post st tag_table now u1 u2 usr pid rq = Inr (st', p') \<longrightarrow>
            snapshot_first st st' p usr)
       \<and> (\<forall>st' p'. restore_version um st u1 u2 usr pid vid = Inr (st', p') \<longrightarrow>
            snapshot_first st st' p usr)
       \<and> (\<forall>st1 v. createPostVersion st u1 u2 p usr = Inr (st1, v) \<longrightarrow>
            rows st1 = rows st @ [v] \<and> writes st1 = writes st @ [Insert v] \<and> snapshot_of p usr v)"
proof (intro conjI allI impI)
  fix st' p'
  { assume "update_content um st now u1 u2 usr pid flat = Inr (st', p')"
    then show "snapshot_first st st' p usr" by (rule snapshot_first_content [OF P]) }
  { assume "update_post st tag_table now u1 u2 usr pid rq = Inr (st', p')"
    then show "snapshot_first st st' p usr" by (rule snapshot_first_update [OF P]) }
  { assume "restore_version um st u1 u2 usr pid vid = Inr (st', p')"
    then show "snapshot_first st st' p usr" by (rule snapshot_first_restore [OF P]) }
next
  fix st1 v
  assume C: "createPostVersion st u1 u2 p usr = Inr (st1, v)"
  from createPostVersion_InrD [OF C]
  show "rows st1 = rows st @ [v]" and "writes st1 = writes st @ [Insert v]" by simp_all
  show "snapshot_of p usr v" by (rule createPostVersion_snapshot_of [OF C])
qed

theorem snapshot_before_every_edit_witness:
  "\<exists>s1 q1 s2 q2 s3 q3.
      findOne (rows ex_store) 1 = Some ex_home
    \<and> update_content replace_all_meta ex_store 70 ''u-3'' ''u-4'' (Some 9) 1 [(''title'', ''x'')]
        = Inr (s1, q1)
    \<and> snapshot_first ex_store s1 ex_home (Some 9)
    \<and> update_post ex_store [4, 7] 70 ''u-3'' ''u-4'' (Some 9) 1
         \<lparr>req_slug = Some ''start'', req_name = Some ''Start'', req_tags = Some [Some 7, None]\<rparr>
        = Inr (s2, q2)
    \<and> snapshot_first ex_store s2 ex_home (Some 9)
    \<and> restore_version replace_all_meta ex_store ''u-3'' ''u-4'' (Some 9) 1 2 = Inr (s3, q3)
    \<and> snapshot_first ex_store s3 ex_home (Some 9)"
proof -
  note T = snapshot_before_every_edit [OF ex_store_findOne(1)]
  from ex_store_content_ok obtain s1 q1 where
    R1: "update_content replace_all_meta ex_store 70 ''u-3'' ''u-4'' (Some 9) 1 [(''title'', ''x'')]
        = Inr (s1, q1)" by blast
  from ex_store_update_ok obtain s2 q2 where
    R2: "update_post ex_store [4, 7] 70 ''u-3'' ''u-4'' (Some 9) 1
         \<lparr>req_slug = Some ''start'', req_name = Some ''Start'', req_tags = Some [Some 7, None]\<rparr>
        = Inr (s2, q2)" by blast
  from restore_version_ok [OF ex_store_findOne(1) ex_store_version_query ex_store_ok]
  obtain s3 q3 where
    R3: "restore_version replace_all_meta ex_store ''u-3'' ''u-4'' (Some 9) 1 2 = Inr (s3, q3)"
    by blast
  from T [THEN conjunct1, rule_format, OF R1]
  have S1: "snapshot_first ex_store s1 ex_home (Some 9)" .
  from T [THEN conjunct2, THEN conjunct1, rule_format, OF R2]
  have S2: "snapshot_first ex_store s2 ex_home (Some 9)" .
  from T [THEN conjunct2, THEN conjunct2, THEN conjunct1, rule_format, OF R3]
  have S3: "snapshot_first ex_store s3 ex_home (Some 9)" .
  from ex_store_findOne(1) R1 S1 R2 S2 R3 S3 show ?thesis by (intro exI conjI)
qed

section \<open>Renaming a post\<close>

text \<open>
  Claim C8. After a successful rename of the post \<open>p\<close> to the slug \<open>s\<close>, the saved post
  has the slug \<open>s\<close> and the new path; every other row whose path was the old path or
  began with the old path and a slash has that prefix replaced by the new path, and
  every other row outside the old subtree is unchanged.
\<close>

theorem rename_rewrites_subtree:
  assumes P: "findOne (rows st) pid = Some p"
      and S: "req_slug rq = Some s" and NE: "s \<noteq> []"
      and R: "update_post st tag_table now u1 u2 usr pid rq = Inr (st', p')"
  shows "slug p' = s \<and> slugPath p' = newSlugPath (rows st) p s
         \<and> findOne (rows st') pid = Some p'
         \<and> (\<forall>i < length (rows st). post_id (rows st ! i) \<noteq> pid \<longrightarrow>
               rows st' ! i =
                 (rows st ! i)\<lparr>slugPath :=
                    (if in_subtree (slugPath p) (slugPath (rows st ! i))
                     then newSlugPath (rows st) p s @ drop (length (slugPath p)) (slugPath (rows st ! i))
                     else slugPath (rows st ! i))\<rparr>)"
proof -
  define new where "new = newSlugPath (rows st) p s"
  define upd where "upd = (\<lambda>r::post. r\<lparr>slugPath := replace_prefix (slugPath p) new (slugPath r)\<rparr>)"
  have T: "truthy_str (req_slug rq)" using S NE by (simp add: truthy_str_def)
  from update_post_InrD [OF P R] T S obtain st1 v
    where id: "post_id p' = pid" and sl: "slug p' = s" and sp: "slugPath p' = new"
      and rs: "rows st' = map (\<lambda>r. if post_id r = pid then p' else r) (map upd (rows st @ [v]))"
    by (auto simp: new_def upd_def)
  have keep: "\<And>r. post_id (upd r) = post_id r" by (simp add: upd_def)
  from findOne_map_keep_id [of upd "rows st" pid, OF keep] P
  have "findOne (map upd (rows st)) pid = Some (upd p)" by simp
  from findOne_replace [OF this id, of "[if post_id (upd v) = pid then p' else upd v]"]
  have f: "findOne (rows st') pid = Some p'" unfolding rs by simp
  have others: "\<forall>i < length (rows st). post_id (rows st ! i) \<noteq> pid \<longrightarrow>
               rows st' ! i =
                 (rows st ! i)\<lparr>slugPath :=
                    (if in_subtree (slugPath p) (slugPath (rows st ! i))
                     then new @ drop (length (slugPath p)) (slugPath (rows st ! i))
                     else slugPath (rows st ! i))\<rparr>"
    unfolding rs by (auto simp: nth_append upd_def replace_prefix_def)
  from sl sp f others show ?thesis unfolding new_def by simp
qed


theorem rename_rewrites_subtree_witness:
  "\<exists>st' p'. update_post ex_tree [] 70 ''u-1'' ''u-2'' (Some 9) 1 (ex_rename ''z'') = Inr (st', p')
     \<and> map slugPath (rows ex_tree) = [''a'', ''a/b'', ''ab'', ''a/b/c'']
     \<and> slug p' = ''z'' \<and> slugPath p' = ''z'' \<and> findOne (rows st') 1 = Some p'
     \<and> slugPath (rows st' ! 1) = ''z/b'' \<and> slugPath (rows st' ! 2) = ''ab''
     \<and> slugPath (rows st' ! 3) = ''z/b/c''"
proof -
  from ex_tree_rename_ok obtain st' p' where
    R: "update_post ex_tree [] 70 ''u-1'' ''u-2'' (Some 9) 1 (ex_rename ''z'') = Inr (st', p')"
    by blast
  have S: "req_slug (ex_rename ''z'') = Some ''z''" by (simp add: ex_rename_def)
  note T = rename_rewrites_subtree [OF ex_tree_findOne S _ R, simplified]
  have old: "map slugPath (rows ex_tree) = [''a'', ''a/b'', ''ab'', ''a/b/c'']"
    by (simp add: ex_tree_def blank_post_def)
  have a: "slug p' = ''z''" "slugPath p' = ''z''" "findOne (rows st') 1 = Some p'"
    using T by (simp_all add: newSlugPath_def ex_tree_def blank_post_def)
  have b: "slugPath (rows st' ! 1) = ''z/b''" "slugPath (rows st' ! 2) = ''ab''"
    "slugPath (rows st' ! 3) = ''z/b/c''"
    using T [THEN conjunct2, THEN conjunct2, THEN conjunct2, rule_format, of 1]
      T [THEN conjunct2, THEN conjunct2, THEN conjunct2, rule_format, of 2]
      T [THEN conjunct2, THEN conjunct2, THEN conjunct2, rule_format, of 3]
    by (simp_all add: newSlugPath_def in_subtree_def starts_with_def ex_tree_def blank_post_def)
  from R old a b show ?thesis by (intro exI conjI)
qed


section \<open>Facts about the reference compiler\<close>

declare compilePost.simps [simp del]

lemma compilePost_below:
  assumes "debt < maxDebt"
      and "resolve_post rs now a data = Inr (Some post)"
      and "truthy_ids (parsed_references (parseContent E post)) \<noteq> []"
  shows "compilePost E rs assets now a data debt =
           (case promise_all
                   (map (\<lambda>i. compilePost E rs assets now (by_id i) None (Suc debt))
                      (truthy_ids (parsed_references (parseContent E post)))) of
              Inl e \<Rightarrow> Inl e
            | Inr posts \<Rightarrow>
                (case inject_references E (parsed_references (parseContent E post)) posts
                        (parsed_content (parseContent E post)) of
                   Inl e \<Rightarrow> Inl e
                 | Inr c \<Rightarrow>
                     Inr (Some \<lparr>compiled_post = mapPublicPostWithMeta E post,
                                compiled_content =
                                  inject_assets E assets (parsed_assets (parseContent E post)) c\<rparr>)))"
  using assms
  by (subst compilePost.simps) (simp add: Let_def by_id_def split: sum.splits option.splits)


lemmas ex_defs = ex_env_def ex_page_def ex_cycle_def ex_cycle_refs_def by_id_def blank_post_def
  resolve_post_def getReturn_def isPostPublished_def truthy_str_def truthy_id_def
  truthy_ids_def findOne_def inject_assets_def inject_references_def postsObj_lookup_def
  Let_def


lemma ex_cycle_resolve:
  "resolve_post ex_cycle 100 (by_id 10) None = Inr (Some (ex_page 10 ''a'' ''published''))"
  "resolve_post ex_cycle 100 (by_id 20) None = Inr (Some (ex_page 20 ''b'' ''published''))"
  "resolve_post ex_cycle 100 (by_id 30) None = Inr (Some (ex_page 30 ''c'' ''published''))"
  "resolve_post ex_cycle 100 \<lparr>arg_slugPath = Some ''a'', arg_id = None, arg_allowNull = False\<rparr> None
     = Inr (Some (ex_page 10 ''a'' ''published''))"
  by (simp_all add: ex_defs)

lemma ex_cycle_ids:
  "truthy_ids (parsed_references (parseContent (ex_env ex_cycle_refs) (ex_page 10 ''a'' ''published''))) = [20]"
  "truthy_ids (parsed_references (parseContent (ex_env ex_cycle_refs) (ex_page 20 ''b'' ''published''))) = [30]"
  "truthy_ids (parsed_references (parseContent (ex_env ex_cycle_refs) (ex_page 30 ''c'' ''published''))) = [10]"
  by (simp_all add: ex_defs)


lemma those_None: "None \<in> set xs \<Longrightarrow> those xs = None"
  by (induction xs) (auto split: option.splits)

lemma promise_all_InrD: "promise_all xs = Inr vs \<Longrightarrow> xs = map Inr vs"
  by (induction xs arbitrary: vs) (auto split: sum.splits)

lemma promise_all_InlD: "promise_all xs = Inl e \<Longrightarrow> Inl e \<in> set xs"
  by (induction xs) (auto split: sum.splits)

lemma truthy_ids_nonzero: "i \<in> set (truthy_ids refs) \<Longrightarrow> i \<noteq> 0"
  by (auto simp: truthy_ids_def truthy_id_def split: option.splits)

lemma resolve_post_allowNull:
  "arg_allowNull a \<Longrightarrow> truthy_str (arg_slugPath a) \<or> truthy_id (arg_id a) \<or> data \<noteq> None \<Longrightarrow>
   resolve_post rs now a data \<noteq> Inl e"
  by (auto simp: resolve_post_def getReturn_def Let_def split: option.splits)

lemma compilePost_null: "resolve_post rs now a data = Inr None \<Longrightarrow>
   compilePost E rs assets now a data debt = Inr None"
  by (subst compilePost.simps) simp

lemma sub_compile_error:
  "compilePost E rs assets now a data debt = Inl e \<Longrightarrow> arg_allowNull a \<Longrightarrow>
   truthy_str (arg_slugPath a) \<or> truthy_id (arg_id a) \<or> data \<noteq> None \<Longrightarrow> e = TypeError"
proof (induction E rs assets now a data debt rule: compilePost.induct)
  case (1 E rs assets now a data debt)
  from resolve_post_allowNull [OF "1.prems"(2,3)] "1.prems"(1)
  obtain post where r: "resolve_post rs now a data = Inr (Some post)"
    by (subst (asm) compilePost.simps) (auto split: sum.splits option.splits)
  define ids where "ids = truthy_ids (parsed_references (parseContent E post))"
  show ?case
  proof (cases "ids \<noteq> [] \<and> debt < maxDebt")
    case False
    with "1.prems"(1) r show ?thesis
      by (subst (asm) compilePost.simps) (auto simp: Let_def ids_def split: sum.splits)
  next
    case True
    let ?subs = "map (\<lambda>i. compilePost E rs assets now (by_id i) None (Suc debt)) ids"
    from "1.prems"(1) r True
    have "(case promise_all ?subs of
              Inl e \<Rightarrow> Inl e
            | Inr posts \<Rightarrow>
                (case inject_references E (parsed_references (parseContent E post)) posts
                        (parsed_content (parseContent E post)) of
                   Inl e \<Rightarrow> Inl e
                 | Inr c \<Rightarrow>
                     Inr (Some \<lparr>compiled_post = mapPublicPostWithMeta E post,
                                compiled_content =
                                  inject_assets E assets (parsed_assets (parseContent E post)) c\<rparr>)))
          = Inl e"
      using compilePost_below [of debt rs now a data post E assets] by (simp add: ids_def)
    then consider (sub) "promise_all ?subs = Inl e"
      | (inj) posts where "inject_references E (parsed_references (parseContent E post)) posts
                        (parsed_content (parseContent E post)) = Inl e"
      by (auto split: sum.splits)
    then show ?thesis
    proof cases
      case sub
      from promise_all_InlD [OF sub] obtain i where i: "i \<in> set ids"
        and c: "compilePost E rs assets now (by_id i) None (Suc debt) = Inl e" by auto
      from truthy_ids_nonzero [of i] i have nz: "i \<noteq> 0" by (simp add: ids_def)
      from c have c': "compilePost E rs assets now
          \<lparr>arg_slugPath = None, arg_id = Some i, arg_allowNull = True\<rparr> None (debt + 1) = Inl e"
        by (simp add: by_id_def)
      have t: "ids \<noteq> [] \<and> debt < maxDebt" by (rule True)
      show ?thesis
        by (rule "1.IH" [OF r refl refl refl refl t [unfolded ids_def] i [unfolded ids_def] c'])
           (simp_all add: truthy_id_def nz)
    next
      case inj
      then show ?thesis by (auto simp: inject_references_def split: option.splits)
    qed
  qed
qed

lemma broken_reference_raises:
  assumes d: "debt < maxDebt"
      and r: "resolve_post rs now a data = Inr (Some post)"
      and i: "i \<in> set (truthy_ids (parsed_references (parseContent E post)))"
      and b: "resolve_post rs now (by_id i) None = Inr None"
  shows "compilePost E rs assets now a data debt = Inl TypeError"
proof -
  define ids where "ids = truthy_ids (parsed_references (parseContent E post))"
  let ?subs = "map (\<lambda>i. compilePost E rs assets now (by_id i) None (Suc debt)) ids"
  from i have ne: "ids \<noteq> []" by (auto simp: ids_def)
  note eq = compilePost_below [OF d r ne [unfolded ids_def], of assets, folded ids_def]
  show ?thesis
  proof (cases "promise_all ?subs")
    case (Inl e)
    from promise_all_InlD [OF Inl] obtain j where j: "j \<in> set ids"
      and c: "compilePost E rs assets now (by_id j) None (Suc debt) = Inl e" by auto
    from truthy_ids_nonzero [of j] j have "j \<noteq> 0" by (simp add: ids_def)
    with sub_compile_error [OF c] have "e = TypeError" by (simp add: by_id_def truthy_id_def)
    with eq Inl show ?thesis by simp
  next
    case (Inr posts)
    have n: "compilePost E rs assets now (by_id i) None (Suc debt) = Inr None"
      by (rule compilePost_null [OF b])
    from i have "i \<in> set ids" by (simp add: ids_def)
    then have "(\<lambda>i. compilePost E rs assets now (by_id i) None (Suc debt)) i \<in> set ?subs"
      unfolding set_map by (rule imageI)
    with n have "Inr None \<in> set ?subs" by simp
    then have "None \<in> set posts" unfolding promise_all_InrD [OF Inr] by auto
    from those_None [OF this] eq Inr show ?thesis by (simp add: inject_references_def)
  qed
qed

section \<open>The depth ceiling\<close>

text \<open>
  Claim C1. \<open>compilePost\<close> is a total function: its recursion goes from depth \<open>debt\<close> to
  \<open>debt + 1\<close> and only while \<open>debt < maxDebt = 3\<close>, so it ends on every table of posts,
  cyclic or not. A post compiled at the ceiling has none of its references compiled or
  replaced: its content is the parsed content, placeholders included, with the assets
  merged in, whatever the references are.
\<close>

theorem compilePost_depth_ceiling:
  assumes "maxDebt \<le> debt"
  shows "compilePost E rs assets now a data debt =
           (case resolve_post rs now a data of
              Inl e \<Rightarrow> Inl e
            | Inr None \<Rightarrow> Inr None
            | Inr (Some post) \<Rightarrow>
                Inr (Some \<lparr>compiled_post = mapPublicPostWithMeta E post,
                           compiled_content =
                             inject_assets E assets (parsed_assets (parseContent E post))
                               (parsed_content (parseContent E post))\<rparr>))"
  using assms
  by (subst compilePost.simps) (simp add: Let_def split: sum.splits option.splits)


theorem compilePost_depth_ceiling_witness:
  "maxDebt \<le> 3
   \<and> compilePost (ex_env ex_cycle_refs) ex_cycle [] 100 (by_id 10) None 3 = Inr (Some ex_a_at_ceiling)
   \<and> compiled_content ex_a_at_ceiling = [(''title'', Text ''a''), (''next'', Placeholder (Some 20))]
   \<and> compile_by_path (ex_env ex_cycle_refs) ex_cycle [] 100 ''a'' = Inr (Some ex_a_compiled)"
proof -
  have m: "maxDebt \<le> Suc (Suc (Suc 0))" by (simp add: maxDebt_def)
  have l3: "compilePost (ex_env ex_cycle_refs) ex_cycle [] 100 (by_id 10) None (Suc (Suc (Suc 0)))
            = Inr (Some ex_a_at_ceiling)"
    using compilePost_depth_ceiling [OF m, of "ex_env ex_cycle_refs" ex_cycle "[]" 100 "by_id 10" None]
    by (simp add: ex_cycle_resolve) (simp add: ex_defs ex_a_at_ceiling_def)
  have l2: "compilePost (ex_env ex_cycle_refs) ex_cycle [] 100 (by_id 30) None (Suc (Suc 0))
            = Inr (Some ex_c_compiled)"
    by (subst compilePost_below [OF _ ex_cycle_resolve(3)])
       (simp_all add: ex_cycle_ids maxDebt_def l3, simp add: ex_defs ex_c_compiled_def ex_a_at_ceiling_def)
  have l1: "compilePost (ex_env ex_cycle_refs) ex_cycle [] 100 (by_id 20) None (Suc 0)
            = Inr (Some ex_b_compiled)"
    by (subst compilePost_below [OF _ ex_cycle_resolve(2)])
       (simp_all add: ex_cycle_ids maxDebt_def l2, simp add: ex_defs ex_b_compiled_def ex_c_compiled_def)
  have l0: "compile_by_path (ex_env ex_cycle_refs) ex_cycle [] 100 ''a'' = Inr (Some ex_a_compiled)"
    unfolding compile_by_path_def
    by (subst compilePost_below [OF _ ex_cycle_resolve(4)])
       (simp_all add: ex_cycle_ids maxDebt_def l1, simp add: ex_defs ex_a_compiled_def ex_b_compiled_def)
  from l3 have l3': "compilePost (ex_env ex_cycle_refs) ex_cycle [] 100 (by_id 10) None 3
            = Inr (Some ex_a_at_ceiling)"
    by (simp add: numeral_3_eq_3)
  have "maxDebt \<le> 3" by (simp add: maxDebt_def)
  with l3' l0 show ?thesis by (simp add: ex_a_at_ceiling_def)
qed

section \<open>Broken references\<close>

text \<open>
  Claim C2 fails on the code: a reference to a post that does not exist, or to one that
  is not published, makes the sub-compile return \<^verbatim>\<open>null\<close>, and the loop of lines 705-707
  reads \<^verbatim>\<open>post.id\<close> of that \<^verbatim>\<open>null\<close>: the whole compilation ends with a \<^verbatim>\<open>TypeError\<close>
  and no compiled post is returned.
\<close>

theorem broken_reference_type_error:
  "compile_by_path (ex_env (ex_refs_to 40)) ex_broken [] 100 ''a'' = Inl TypeError
   \<and> compile_by_path (ex_env (ex_refs_to 20)) ex_broken [] 100 ''a'' = Inl TypeError
   \<and> compilePost (ex_env (ex_refs_to 40)) ex_broken [] 100 (by_id 40) None (Suc 0) = Inr None
   \<and> compilePost (ex_env (ex_refs_to 20)) ex_broken [] 100 (by_id 20) None (Suc 0) = Inr None"
proof -
  have r: "resolve_post ex_broken 100
             \<lparr>arg_slugPath = Some ''a'', arg_id = None, arg_allowNull = False\<rparr> None
           = Inr (Some (ex_page 10 ''a'' ''published''))"
    by (simp add: ex_defs ex_broken_def)
  have n: "resolve_post ex_broken 100 (by_id 40) None = Inr None"
    "resolve_post ex_broken 100 (by_id 20) None = Inr None"
    by (simp_all add: ex_defs ex_broken_def)
  have i: "\<And>t. t \<noteq> 0 \<Longrightarrow> truthy_ids (parsed_references (parseContent (ex_env (ex_refs_to t))
             (ex_page 10 ''a'' ''published''))) = [t]"
    by (simp add: ex_defs ex_refs_to_def)
  have s: "compilePost (ex_env (ex_refs_to 40)) ex_broken [] 100 (by_id 40) None (Suc 0) = Inr None"
    "compilePost (ex_env (ex_refs_to 20)) ex_broken [] 100 (by_id 20) None (Suc 0) = Inr None"
    by (subst compilePost.simps, simp add: n)+
  have "compile_by_path (ex_env (ex_refs_to 40)) ex_broken [] 100 ''a'' = Inl TypeError"
    unfolding compile_by_path_def
    by (subst compilePost_below [OF _ r]) (simp_all add: i maxDebt_def s inject_references_def)
  moreover have "compile_by_path (ex_env (ex_refs_to 20)) ex_broken [] 100 ''a'' = Inl TypeError"
    unfolding compile_by_path_def
    by (subst compilePost_below [OF _ r]) (simp_all add: i maxDebt_def s inject_references_def)
  ultimately show ?thesis using s by simp
qed


section \<open>Errors of the copy operation\<close>

lemmas copy_defs = copy_post_def copy_transaction_def find_parent_def getSlugPath_def
  dirname_def getParent_def create_post_def catch_23505_def insert_post_def commit_def
  unique_paths_def fresh_id_def findOne_def in_subtree_def starts_with_def truthy_id_def
  truthy_str_def ex_copy_def ex_create_def ex_tree_def blank_post_def Let_def


lemma copy_post_only_duplicate_slug: "copy_post st usr pid rq = Inl e \<Longrightarrow> e = DuplicateSlug"
  by (auto simp: copy_post_def split: sum.splits)

lemma copy_post_invalid_parent:
  "truthy_id (copy_parentId rq) \<Longrightarrow> findOne (rows st) (the (copy_parentId rq)) = None \<Longrightarrow>
   copy_post st usr pid rq = Inl DuplicateSlug"
  by (simp add: copy_post_def copy_transaction_def find_parent_def)

lemma copy_post_invalid_source:
  "findOne (rows st) pid = None \<Longrightarrow> copy_post st usr pid rq = Inl DuplicateSlug"
  by (auto simp: copy_post_def copy_transaction_def split: sum.splits)

lemma copy_recursive_example:
  "map (\<lambda>q. (post_id q, slugPath q, parent q, name q))
     (snd (projr (copy_post ex_tree (Some 9) 1 (ex_copy None True ''z''))))
   = [(5, ''z'', None, ''z''), (6, ''z/b'', Some 5, ''B''), (7, ''z/b/c'', Some 6, ''C'')]"
  by (simp add: copy_defs sort_key_def)

text \<open>
  Claim C3 fails on the code. In the example tree a copy to a parent 99 that does not
  exist throws \<^verbatim>\<open>invalid_parent\<close> inside the transaction, and a copy of a source 99
  that does not exist throws \<^verbatim>\<open>invalid_source\<close>, but the handler reports
  \<^verbatim>\<open>duplicate_slug\<close> for both, as it does for a real collision of paths. Creating a
  post under the parent 99 reports \<^verbatim>\<open>invalid_parent\<close>.
\<close>

theorem copy_post_masks_errors:
  "copy_transaction ex_tree (Some 9) 1 (ex_copy (Some 99) False ''z'') = Inl InvalidParent
   \<and> copy_post ex_tree (Some 9) 1 (ex_copy (Some 99) False ''z'') = Inl DuplicateSlug
   \<and> copy_transaction ex_tree (Some 9) 99 (ex_copy None False ''z'') = Inl InvalidSource
   \<and> copy_post ex_tree (Some 9) 99 (ex_copy None False ''z'') = Inl DuplicateSlug
   \<and> copy_transaction ex_tree (Some 9) 1 (ex_copy None False ''ab'') = Inl UniqueViolation
   \<and> copy_post ex_tree (Some 9) 1 (ex_copy None False ''ab'') = Inl DuplicateSlug
   \<and> create_post ex_tree [] (Some 9) (ex_create (Some 99) ''z'') = Inl InvalidParent
   \<and> create_post ex_tree [] (Some 9) (ex_create None ''ab'') = Inl DuplicateSlug"
  by (simp add: copy_defs)


end
